theory Spec2Isabelle
  imports Complex_Main
begin

section \<open>The ridge model: a Landlab grid driven through diffusion, routing, erosion and uplift\<close>

text \<open>
  The program is a script, \<^verbatim>\<open>ridge_model.py\<close>. It reads a raster of elevations into a
  Landlab grid \<^verbatim>\<open>mg\<close>, classifies the four edges, builds three Landlab components
  (\<^verbatim>\<open>LinearDiffuser\<close>, \<^verbatim>\<open>FlowAccumulator\<close>, \<^verbatim>\<open>FastscapeEroder\<close>) and runs a loop that
  calls them, records erosion in a trailing window and adds uplift to the core nodes.

  Node arrays (NumPy arrays indexed by node id) are lists; Python floats are idealised as
  \<^typ>\<open>real\<close>, so rounding is not modelled. The grid object, which Python mutates in place,
  is a record passed through the statements and returned updated.
\<close>

subsection \<open>Node status and node arrays\<close>

datatype status = CORE | FIXED_VALUE | CLOSED

type_synonym field = "real list"

text \<open>
  Elementwise array arithmetic: \<^verbatim>\<open>a -= b\<close>, \<^verbatim>\<open>a += b\<close> and \<^verbatim>\<open>a * k\<close> on node arrays of one
  length (all node arrays of a grid have \<^verbatim>\<open>number_of_nodes\<close> entries).
\<close>

definition isub :: "field \<Rightarrow> field \<Rightarrow> field" where
  "isub a b = map2 (\<lambda>x y. x - y) a b"

definition iadd :: "field \<Rightarrow> field \<Rightarrow> field" where
  "iadd a b = map2 (\<lambda>x y. x + y) a b"

definition scale :: "field \<Rightarrow> real \<Rightarrow> field" where
  "scale a k = map (\<lambda>x. x * k) a"

text \<open>
  Index-array assignment \<^verbatim>\<open>a[idx] = v\<close>: every listed position is overwritten, in order.
\<close>

definition assign_at :: "'a list \<Rightarrow> nat list \<Rightarrow> 'a \<Rightarrow> 'a list" where
  "assign_at a idx v = fold (\<lambda>i acc. acc[i := v]) idx a"

text \<open>
  Index-array update \<^verbatim>\<open>a[idx] += v\<close>: NumPy first gathers \<^verbatim>\<open>a[idx] + v\<close> from the array
  as it is, then scatters the results back, so an index listed twice is still raised once.
\<close>

definition add_at :: "field \<Rightarrow> nat list \<Rightarrow> real \<Rightarrow> field" where
  "add_at a idx v = fold (\<lambda>(i, x) acc. acc[i := x]) (zip idx (map (\<lambda>i. a ! i + v) idx)) a"

subsection \<open>The grid\<close>

text \<open>
  The flow field is what \<^verbatim>\<open>FlowAccumulator.run_one_step\<close> writes on the grid: a receiver
  per node, the drainage area per node, and the node order used by the eroder.
\<close>

record flow_field =
  flow__receiver_node :: "nat list"
  drainage_area :: field
  flow__upstream_node_order :: "nat list"

record grid =
  number_of_node_rows :: nat
  number_of_node_columns :: nat
  status_at_node :: "status list"
  topographic__elevation :: field
  flow :: flow_field
  erode_dep :: field
  t_erode_dep :: field

text \<open>
  Landlab numbers the nodes of a raster row by row from the bottom-left corner. The four
  edge properties each list a whole row or column, corners included; \<^verbatim>\<open>core_nodes\<close> lists
  the ids whose status is CORE, in increasing order.
\<close>

definition nodes_at_bottom_edge :: "nat \<Rightarrow> nat \<Rightarrow> nat list" where
  "nodes_at_bottom_edge nrows ncols = [0 ..< ncols]"

definition nodes_at_top_edge :: "nat \<Rightarrow> nat \<Rightarrow> nat list" where
  "nodes_at_top_edge nrows ncols = [(nrows - 1) * ncols ..< nrows * ncols]"

definition nodes_at_left_edge :: "nat \<Rightarrow> nat \<Rightarrow> nat list" where
  "nodes_at_left_edge nrows ncols = map (\<lambda>r. r * ncols) [0 ..< nrows]"

definition nodes_at_right_edge :: "nat \<Rightarrow> nat \<Rightarrow> nat list" where
  "nodes_at_right_edge nrows ncols = map (\<lambda>r. r * ncols + (ncols - 1)) [0 ..< nrows]"

definition core_nodes :: "status list \<Rightarrow> nat list" where
  "core_nodes st = filter (\<lambda>i. st ! i = CORE) [0 ..< length st]"

text \<open>
  A freshly read raster has its perimeter nodes FIXED_VALUE and its interior nodes CORE.
\<close>

definition is_perimeter :: "nat \<Rightarrow> nat \<Rightarrow> nat \<Rightarrow> bool" where
  "is_perimeter nrows ncols i =
     (i div ncols = 0 \<or> i div ncols = nrows - 1 \<or> i mod ncols = 0 \<or> i mod ncols = ncols - 1)"

definition initial_status :: "nat \<Rightarrow> nat \<Rightarrow> status list" where
  "initial_status nrows ncols =
     map (\<lambda>i. if is_perimeter nrows ncols i then FIXED_VALUE else CORE) [0 ..< nrows * ncols]"

subsection \<open>Boundary setup (lines 60 to 63)\<close>

text \<open>
  \<^verbatim>\<open>
  for edge in (mg.nodes_at_top_edge, mg.nodes_at_bottom_edge):
      mg.status_at_node[edge] = mg.BC_NODE_IS_FIXED_VALUE
  for edge in (mg.nodes_at_left_edge, mg.nodes_at_right_edge):
      mg.status_at_node[edge] = mg.BC_NODE_IS_CLOSED
  \<close>
\<close>

definition set_boundaries :: "nat \<Rightarrow> nat \<Rightarrow> status list \<Rightarrow> status list" where
  "set_boundaries nrows ncols st =
     (let st1 = fold (\<lambda>edge s. assign_at s edge FIXED_VALUE)
                  [nodes_at_top_edge nrows ncols, nodes_at_bottom_edge nrows ncols] st
      in fold (\<lambda>edge s. assign_at s edge CLOSED)
           [nodes_at_left_edge nrows ncols, nodes_at_right_edge nrows ncols] st1)"

definition corner_nodes :: "nat \<Rightarrow> nat \<Rightarrow> nat list" where
  "corner_nodes nrows ncols =
     [0, ncols - 1, (nrows - 1) * ncols, nrows * ncols - 1]"

subsection \<open>The Landlab components\<close>

text \<open>
  The three components are library objects built on the grid; the script only calls their
  \<^verbatim>\<open>run_one_step\<close>. Each is taken as a parameter, typed by the node arrays it reads and
  the one it writes: the diffuser and the eroder rewrite \<^verbatim>\<open>topographic__elevation\<close>, the
  accumulator rewrites the flow field, and none of them touches \<^verbatim>\<open>erode_dep\<close> or
  \<^verbatim>\<open>t_erode_dep\<close>, which belong to the script.
\<close>

record components =
  lin_diffuse :: "real \<Rightarrow> status list \<Rightarrow> field \<Rightarrow> field"
  fr :: "status list \<Rightarrow> field \<Rightarrow> flow_field"
  erode :: "real \<Rightarrow> status list \<Rightarrow> flow_field \<Rightarrow> field \<Rightarrow> field"

text \<open>
  A component works on the node arrays of its grid: given an elevation array with one
  entry per node, it returns one of the same size.
\<close>

definition keeps_size :: "components \<Rightarrow> nat \<Rightarrow> bool" where
  "keeps_size c n \<longleftrightarrow>
     (\<forall>dt st z. length z = n \<longrightarrow> length (lin_diffuse c dt st z) = n) \<and>
     (\<forall>dt st f z. length z = n \<longrightarrow> length (erode c dt st f z) = n)"

subsection \<open>The time loop (lines 103 to 109 and 134 to 148)\<close>

text \<open>
  \<^verbatim>\<open>
  nt = int(total_t // dt)
  uplift_per_step = uplift_rate * dt
  \<close>
  \<^verbatim>\<open>total_t\<close> and \<^verbatim>\<open>dt\<close> are Python integers; floor division by zero raises.
\<close>

datatype error = ZeroDivisionError

definition nt_of :: "int \<Rightarrow> int \<Rightarrow> error + int" where
  "nt_of total_t dt = (if dt = 0 then Inl ZeroDivisionError else Inr (total_t div dt))"

definition uplift_per_step_of :: "real \<Rightarrow> int \<Rightarrow> real" where
  "uplift_per_step_of uplift_rate dt = uplift_rate * real_of_int dt"

text \<open>
  The uplift statement,
  \<^verbatim>\<open>mg.at_node['topographic__elevation'][mg.core_nodes] += uplift_per_step\<close>.
\<close>

definition uplift :: "status list \<Rightarrow> field \<Rightarrow> real \<Rightarrow> field" where
  "uplift st z uplift_per_step = add_at z (core_nodes st) uplift_per_step"

text \<open>
  One pass of the loop body, statement by statement, for loop index \<open>i\<close>:
  \<^verbatim>\<open>
  if i > 900:
      mg.at_node['erode_dep']-=mg.at_node['erode_dep']
      mg.at_node['erode_dep']+=mg.at_node['topographic__elevation']
  lin_diffuse.run_one_step(dt)
  fr.run_one_step()
  erode.run_one_step(dt)
  if i > 900:
      mg.at_node['erode_dep']-=mg.at_node['topographic__elevation']
      mg.at_node['t_erode_dep']+=mg.at_node['erode_dep']
  mg.at_node['topographic__elevation'][mg.core_nodes] += uplift_per_step
  \<close>
  The progress line printed every 200 passes does not touch the grid and is left out.
\<close>

definition window_open :: "grid \<Rightarrow> grid" where
  "window_open mg =
     (let mg1 = mg\<lparr>erode_dep := isub (erode_dep mg) (erode_dep mg)\<rparr>
      in mg1\<lparr>erode_dep := iadd (erode_dep mg1) (topographic__elevation mg1)\<rparr>)"

definition window_close :: "grid \<Rightarrow> grid" where
  "window_close mg =
     (let mg1 = mg\<lparr>erode_dep := isub (erode_dep mg) (topographic__elevation mg)\<rparr>
      in mg1\<lparr>t_erode_dep := iadd (t_erode_dep mg1) (erode_dep mg1)\<rparr>)"

definition loop_body :: "components \<Rightarrow> int \<Rightarrow> real \<Rightarrow> nat \<Rightarrow> grid \<Rightarrow> grid" where
  "loop_body c dt uplift_per_step i mg =
     (let mg1 = (if i > 900 then window_open mg else mg);
          mg2 = mg1\<lparr>topographic__elevation :=
                  lin_diffuse c (real_of_int dt) (status_at_node mg1) (topographic__elevation mg1)\<rparr>;
          mg3 = mg2\<lparr>flow := fr c (status_at_node mg2) (topographic__elevation mg2)\<rparr>;
          mg4 = mg3\<lparr>topographic__elevation :=
                  erode c (real_of_int dt) (status_at_node mg3) (flow mg3) (topographic__elevation mg3)\<rparr>;
          mg5 = (if i > 900 then window_close mg4 else mg4)
      in mg5\<lparr>topographic__elevation :=
              uplift (status_at_node mg5) (topographic__elevation mg5) uplift_per_step\<rparr>)"

text \<open>
  The whole block: \<^verbatim>\<open>t_erode_dep\<close> is zeroed, the body runs for \<^verbatim>\<open>i in range(nt+1)\<close>, and
  the total is multiplied by \<^verbatim>\<open>0.001\<close>.
\<close>

definition run_loop :: "components \<Rightarrow> int \<Rightarrow> real \<Rightarrow> nat \<Rightarrow> grid \<Rightarrow> grid" where
  "run_loop c dt uplift_per_step n mg = fold (loop_body c dt uplift_per_step) [0 ..< n] mg"

definition simulate :: "components \<Rightarrow> int \<Rightarrow> real \<Rightarrow> int \<Rightarrow> grid \<Rightarrow> grid" where
  "simulate c dt uplift_per_step nt mg =
     (let mg0 = mg\<lparr>t_erode_dep := isub (t_erode_dep mg) (t_erode_dep mg)\<rparr>;
          mg1 = run_loop c dt uplift_per_step (nat (nt + 1)) mg0
      in mg1\<lparr>t_erode_dep := scale (t_erode_dep mg1) 0.001\<rparr>)"

subsection \<open>Derived notions used to state the properties\<close>

text \<open>
  The two process calls of one pass, composed as the loop body composes them: the
  diffuser runs on the elevation it finds, the accumulator routes the diffused surface,
  and the eroder works on the diffused surface with that routing.
\<close>

definition processes :: "components \<Rightarrow> int \<Rightarrow> status list \<Rightarrow> field \<Rightarrow> field" where
  "processes c dt st z =
     (let z1 = lin_diffuse c (real_of_int dt) st z;
          f = fr c st z1
      in erode c (real_of_int dt) st f z1)"

text \<open>
  The elevation at the start of pass \<open>i\<close>, computed without the erosion ledger: every
  earlier pass applied the processes and then the uplift.
\<close>

definition elevation_at :: "components \<Rightarrow> int \<Rightarrow> real \<Rightarrow> status list \<Rightarrow> field \<Rightarrow> nat \<Rightarrow> field" where
  "elevation_at c dt u st z i = ((\<lambda>z. uplift st (processes c dt st z) u) ^^ i) z"

text \<open>
  What pass \<open>i\<close> sees at node \<open>k\<close>: the elevation before the diffusion and fluvial
  updates minus the elevation after them, the uplift of that pass not yet added.
\<close>

definition recorded :: "components \<Rightarrow> int \<Rightarrow> real \<Rightarrow> status list \<Rightarrow> field \<Rightarrow> nat \<Rightarrow> nat \<Rightarrow> real" where
  "recorded c dt u st z i k =
     elevation_at c dt u st z i ! k - processes c dt st (elevation_at c dt u st z i) ! k"

text \<open>All node arrays of a grid have one entry per node.\<close>

definition same_size :: "grid \<Rightarrow> bool" where
  "same_size mg \<longleftrightarrow>
     length (status_at_node mg) = length (topographic__elevation mg) \<and>
     length (erode_dep mg) = length (topographic__elevation mg) \<and>
     length (t_erode_dep mg) = length (topographic__elevation mg)"

text \<open>
  The grid as the script has it when the loop starts: the raster read from the file, the
  boundary setup applied to the fresh status array, and the two ledger arrays made by
  \<^verbatim>\<open>mg.add_zeros\<close>. The flow field holds placeholders until the first routing.
\<close>

definition make_grid :: "nat \<Rightarrow> nat \<Rightarrow> field \<Rightarrow> grid" where
  "make_grid nrows ncols z =
     \<lparr>number_of_node_rows = nrows, number_of_node_columns = ncols,
      status_at_node = set_boundaries nrows ncols (initial_status nrows ncols),
      topographic__elevation = z,
      flow = \<lparr>flow__receiver_node = [0 ..< nrows * ncols],
               drainage_area = replicate (nrows * ncols) 0,
               flow__upstream_node_order = [0 ..< nrows * ncols]\<rparr>,
      erode_dep = replicate (nrows * ncols) 0,
      t_erode_dep = replicate (nrows * ncols) 0\<rparr>"

section \<open>The flow router of the specification\<close>

text \<open>
  Modelled from the spec: the FlowRouter of section 4.2. The script delegates routing to
  Landlab's \<^verbatim>\<open>FlowAccumulator\<close>, whose code is not part of the source; what follows is
  the algorithm as the specification words it.

  Every node has up to eight lattice neighbours, listed here by increasing node id.
\<close>

definition neighbors :: "nat \<Rightarrow> nat \<Rightarrow> nat \<Rightarrow> nat list" where
  "neighbors nrows ncols i =
     (let r = i div ncols; c = i mod ncols
      in filter (\<lambda>j. j \<noteq> i)
           (concat (map (\<lambda>rr. map (\<lambda>cc. rr * ncols + cc) [c - 1 ..< min ncols (c + 2)])
                        [r - 1 ..< min nrows (r + 2)])))"

text \<open>
  Modelled from the spec: the valid neighbours of a node, "respecting CLOSED edges as
  non-traversable".
\<close>

definition valid_neighbors :: "nat \<Rightarrow> nat \<Rightarrow> status list \<Rightarrow> nat \<Rightarrow> nat list" where
  "valid_neighbors nrows ncols st i = filter (\<lambda>j. st ! j \<noteq> CLOSED) (neighbors nrows ncols i)"

text \<open>
  Modelled from the spec: "select the one with the lowest elevation"; among equally low
  candidates the lowest node id wins (the deterministic tie-break).
\<close>

fun lowest :: "field \<Rightarrow> nat list \<Rightarrow> nat option" where
  "lowest z [] = None"
| "lowest z (j # js) =
     (case lowest z js of
        None \<Rightarrow> Some j
      | Some b \<Rightarrow> if z ! b < z ! j then Some b else Some j)"

text \<open>
  Modelled from the spec: the receiver of a node is its lowest valid neighbour "provided it
  is strictly lower than the node's own elevation; if none is strictly lower, the node is
  its own receiver". FIXED_VALUE nodes are outlets, their own receivers; CLOSED nodes take
  no part and are left as their own receivers.
\<close>

definition receiver_of :: "nat \<Rightarrow> nat \<Rightarrow> status list \<Rightarrow> field \<Rightarrow> nat \<Rightarrow> nat" where
  "receiver_of nrows ncols st z i =
     (if st ! i \<noteq> CORE then i
      else case lowest z (valid_neighbors nrows ncols st i) of
             None \<Rightarrow> i
           | Some b \<Rightarrow> if z ! b < z ! i then b else i)"

text \<open>
  Modelled from the spec: nodes "in decreasing-elevation order", equal elevations in the
  order of their ids (the sort is stable).
\<close>

definition decreasing_elevation_order :: "field \<Rightarrow> nat \<Rightarrow> nat list" where
  "decreasing_elevation_order z n = sort_key (\<lambda>i. - (z ! i)) [0 ..< n]"

text \<open>
  Modelled from the spec: "for each node in that order, adding its own accumulated area to
  its receiver's area". A node that is its own receiver passes nothing on.
\<close>

definition accumulate :: "nat list \<Rightarrow> nat list \<Rightarrow> field \<Rightarrow> field" where
  "accumulate recv order a0 =
     fold (\<lambda>i a. if recv ! i \<noteq> i then a[recv ! i := a ! (recv ! i) + a ! i] else a) order a0"

text \<open>
  Modelled from the spec: \<open>route\<close>. Every node starts with its own cell area \<open>dx * dx\<close>
  (the drainage area of a node is at least its own cell). The order handed to the eroder
  is the accumulation order reversed, outlets first.
\<close>

definition route :: "nat \<Rightarrow> nat \<Rightarrow> real \<Rightarrow> status list \<Rightarrow> field \<Rightarrow> flow_field" where
  "route nrows ncols dx st z =
     (let n = nrows * ncols;
          recv = map (receiver_of nrows ncols st z) [0 ..< n];
          order = decreasing_elevation_order z n
      in \<lparr>flow__receiver_node = recv,
          drainage_area = accumulate recv order (replicate n (dx * dx)),
          flow__upstream_node_order = rev order\<rparr>)"

section \<open>The fluvial solver of the specification\<close>

text \<open>
  Modelled from the spec: the FluvialSolver of section 4.4. The script delegates erosion to
  Landlab's \<^verbatim>\<open>FastscapeEroder\<close>, whose code is not part of the source. The script builds
  it with \<^verbatim>\<open>n_sp=1.0\<close>, the slope exponent for which the specification gives the implicit
  update in closed form; the iterative solve for other exponents is not modelled.

\<close>

text \<open>
  Modelled from the spec: a coefficient outside its legal domain is a ConfigurationError
  (section 7).
\<close>

datatype solver_error = ConfigurationError

text \<open>
  Modelled from the spec: the flow-path length from a node to its receiver, one grid
  spacing along a row or column and \<open>dx * sqrt 2\<close> along a diagonal.
\<close>

definition flow_path_length :: "nat \<Rightarrow> real \<Rightarrow> nat \<Rightarrow> nat \<Rightarrow> real" where
  "flow_path_length ncols dx i r =
     (if i div ncols \<noteq> r div ncols \<and> i mod ncols \<noteq> r mod ncols then dx * sqrt 2 else dx)"

text \<open>
  Modelled from the spec: the stream power \<open>K_sp * A^m * S^n\<close>, with \<open>n = 1\<close>.
\<close>

definition stream_power :: "real \<Rightarrow> real \<Rightarrow> real \<Rightarrow> real \<Rightarrow> real" where
  "stream_power K_sp m A S = K_sp * A powr m * S"

text \<open>
  Modelled from the spec: the local slope \<open>(z - z_r) / L\<close>, clamped at zero.
\<close>

definition slope :: "real \<Rightarrow> real \<Rightarrow> real \<Rightarrow> real" where
  "slope zi zr L = max 0 ((zi - zr) / L)"

text \<open>
  Modelled from the spec: the update of one node, given the array in which its receiver
  already holds its new elevation. Only CORE nodes are updated; a node that is its own
  receiver is not eroded; a stream power that does not exceed the threshold erodes
  nothing; otherwise the new elevation solves
  \<open>z_new = z_old - dt * K_sp * A^m * (z_new - z_r) / L\<close>.
\<close>

definition erode_node ::
  "real \<Rightarrow> real \<Rightarrow> real \<Rightarrow> real \<Rightarrow> nat \<Rightarrow> real \<Rightarrow> status list \<Rightarrow> flow_field \<Rightarrow> nat \<Rightarrow> field \<Rightarrow> field" where
  "erode_node K_sp m threshold dt ncols dx st f i a =
     (let r = flow__receiver_node f ! i
      in if st ! i \<noteq> CORE \<or> r = i then a
         else
           let L = flow_path_length ncols dx i r;
               A = drainage_area f ! i;
               S = slope (a ! i) (a ! r) L
           in if stream_power K_sp m A S \<le> threshold then a
              else
                let alpha = dt * K_sp * A powr m / L
                in a[i := (a ! i + alpha * a ! r) / (1 + alpha)])"

text \<open>
  Modelled from the spec: the sweep visits the nodes from the outlets upstream, the order
  the router hands over, so that every receiver is final before its donors are solved.
\<close>

definition fluvial_sweep ::
  "real \<Rightarrow> real \<Rightarrow> real \<Rightarrow> real \<Rightarrow> nat \<Rightarrow> real \<Rightarrow> status list \<Rightarrow> flow_field \<Rightarrow> field \<Rightarrow> field" where
  "fluvial_sweep K_sp m threshold dt ncols dx st f z =
     fold (erode_node K_sp m threshold dt ncols dx st f) (flow__upstream_node_order f) z"

text \<open>
  Modelled from the spec: one step of the solver. A negative \<open>K_sp\<close> or threshold, or an
  exponent, timestep or spacing that is not positive, is a ConfigurationError.
\<close>

definition fluvial_step ::
  "real \<Rightarrow> real \<Rightarrow> real \<Rightarrow> real \<Rightarrow> nat \<Rightarrow> real \<Rightarrow> status list \<Rightarrow> flow_field \<Rightarrow> field
     \<Rightarrow> solver_error + field" where
  "fluvial_step K_sp m threshold dt ncols dx st f z =
     (if K_sp < 0 \<or> m \<le> 0 \<or> threshold < 0 \<or> dt \<le> 0 \<or> dx \<le> 0 then Inl ConfigurationError
      else Inr (fluvial_sweep K_sp m threshold dt ncols dx st f z))"

section \<open>The diffusion solver of the specification\<close>

text \<open>
  Modelled from the spec: the DiffusionSolver of section 4.3. The script delegates
  diffusion to Landlab's \<^verbatim>\<open>LinearDiffuser\<close>, whose code is not part of the source. The
  specification asks for a backward-time scheme: along each lattice line a tridiagonal
  system relates the new elevations to the old ones and is solved directly.

  A row of the system is \<open>(a, b, c, d)\<close>: \<open>a * x_below + b * x + c * x_above = d\<close>.
\<close>

type_synonym tri_row = "real \<times> real \<times> real \<times> real"

text \<open>
  Modelled from the spec: the rows of one lattice line, with \<open>r = D * dt / dx^2\<close>. The row
  of a FIXED_VALUE node is pinned to its elevation; no change is applied to a CLOSED node,
  and no flux crosses into one (nor across the end of the line), so a CORE node is coupled
  only to its neighbours that are not CLOSED.
\<close>

definition line_rows :: "real \<Rightarrow> status list \<Rightarrow> field \<Rightarrow> tri_row list" where
  "line_rows r ss zs =
     map (\<lambda>j. if ss ! j \<noteq> CORE then (0, 1, 0, zs ! j)
               else
                 let a = (if 0 < j \<and> ss ! (j - 1) \<noteq> CLOSED then - r else 0);
                     c = (if Suc j < length zs \<and> ss ! Suc j \<noteq> CLOSED then - r else 0)
                 in (a, 1 - a - c, c, zs ! j))
         [0 ..< length zs]"

text \<open>
  Modelled from the spec: the tridiagonal direct solve starts with a forward elimination,
  which carries the modified coefficients \<open>(c', d')\<close> of the previous row.
\<close>

fun forward_sweep :: "tri_row list \<Rightarrow> real \<Rightarrow> real \<Rightarrow> (real \<times> real) list" where
  "forward_sweep [] cp dp = []"
| "forward_sweep ((a, b, c, d) # rows) cp dp =
     (let den = b - a * cp;
          c' = c / den;
          d' = (d - a * dp) / den
      in (c', d') # forward_sweep rows c' d')"

text \<open>
  Modelled from the spec: the back substitution, from the last row of the line to the
  first.
\<close>

fun back_substitute :: "(real \<times> real) list \<Rightarrow> real list" where
  "back_substitute [] = []"
| "back_substitute [(c', d')] = [d']"
| "back_substitute ((c', d') # p # ps) =
     (let xs = back_substitute (p # ps) in (d' - c' * hd xs) # xs)"

text \<open>Modelled from the spec: the direct solve of one tridiagonal system.\<close>

definition tridiagonal_solve :: "tri_row list \<Rightarrow> real list" where
  "tridiagonal_solve rows = back_substitute (forward_sweep rows 0 0)"

text \<open>Modelled from the spec: the new elevations along one lattice line.\<close>

definition solve_line :: "real \<Rightarrow> status list \<Rightarrow> field \<Rightarrow> field" where
  "solve_line r ss zs = tridiagonal_solve (line_rows r ss zs)"

text \<open>
  Modelled from the spec: the lattice lines are the rows and the columns of the raster.
  Row \<open>k\<close> of a node array.
\<close>

definition row_of :: "nat \<Rightarrow> 'a list \<Rightarrow> nat \<Rightarrow> 'a list" where
  "row_of ncols xs k = take ncols (drop (k * ncols) xs)"

text \<open>Modelled from the spec: column \<open>c\<close> of a node array.\<close>

definition column_of :: "nat \<Rightarrow> nat \<Rightarrow> 'a list \<Rightarrow> nat \<Rightarrow> 'a list" where
  "column_of nrows ncols xs c = map (\<lambda>k. xs ! (k * ncols + c)) [0 ..< nrows]"

text \<open>Modelled from the spec: the solve along every row of the raster.\<close>

definition diffuse_rows :: "real \<Rightarrow> nat \<Rightarrow> nat \<Rightarrow> status list \<Rightarrow> field \<Rightarrow> field" where
  "diffuse_rows r nrows ncols st z =
     concat (map (\<lambda>k. solve_line r (row_of ncols st k) (row_of ncols z k)) [0 ..< nrows])"

text \<open>
  Modelled from the spec: the solve along every column of the raster, the results put back
  in node order.
\<close>

definition diffuse_columns :: "real \<Rightarrow> nat \<Rightarrow> nat \<Rightarrow> status list \<Rightarrow> field \<Rightarrow> field" where
  "diffuse_columns r nrows ncols st z =
     (let cols = map (\<lambda>c. solve_line r (column_of nrows ncols st c) (column_of nrows ncols z c))
                   [0 ..< ncols]
      in map (\<lambda>i. cols ! (i mod ncols) ! (i div ncols)) [0 ..< nrows * ncols])"

text \<open>
  Modelled from the spec: one step of the solver, along the rows and then along the
  columns. A negative diffusivity, or a timestep or spacing that is not positive, is a
  ConfigurationError.
\<close>

definition diffusion_step ::
  "real \<Rightarrow> real \<Rightarrow> real \<Rightarrow> nat \<Rightarrow> nat \<Rightarrow> status list \<Rightarrow> field \<Rightarrow> solver_error + field" where
  "diffusion_step D dt dx nrows ncols st z =
     (if D < 0 \<or> dt \<le> 0 \<or> dx \<le> 0 then Inl ConfigurationError
      else
        let r = D * dt / (dx * dx)
        in Inr (diffuse_columns r nrows ncols st (diffuse_rows r nrows ncols st z)))"

text \<open>
  Modelled from the spec: any number of steps one after the other; the first error ends
  the run.
\<close>

fun diffusion_steps ::
  "nat \<Rightarrow> real \<Rightarrow> real \<Rightarrow> real \<Rightarrow> nat \<Rightarrow> nat \<Rightarrow> status list \<Rightarrow> field \<Rightarrow> solver_error + field" where
  "diffusion_steps 0 D dt dx nrows ncols st z = Inr z"
| "diffusion_steps (Suc k) D dt dx nrows ncols st z =
     (case diffusion_step D dt dx nrows ncols st z of
        Inl e \<Rightarrow> Inl e
      | Inr z' \<Rightarrow> diffusion_steps k D dt dx nrows ncols st z')"

text \<open>
  The rows a flat line of elevation \<open>q\<close> gives rise to: off-diagonal entries that are not
  positive, a row sum of one, and \<open>q\<close> on the right.
\<close>

definition flat_row :: "real \<Rightarrow> tri_row \<Rightarrow> bool" where
  "flat_row q row = (case row of (a, b, c, d) \<Rightarrow> a \<le> 0 \<and> c \<le> 0 \<and> b = 1 - a - c \<and> d = q)"

section \<open>The script's components, with the solvers of the specification\<close>

text \<open>
  Modelled from the spec: the three components that lines 92 to 98 of the script build on
  the grid from \<^verbatim>\<open>D\<close>, \<^verbatim>\<open>Ksp\<close>, \<^verbatim>\<open>m_sp\<close> and \<^verbatim>\<open>threshold\<close>, with the solvers of the
  specification in place of Landlab's. A step that rejects its configuration leaves the
  elevation as it was.
\<close>

definition build_components ::
  "real \<Rightarrow> real \<Rightarrow> real \<Rightarrow> real \<Rightarrow> nat \<Rightarrow> nat \<Rightarrow> real \<Rightarrow> components" where
  "build_components D K_sp m_sp threshold nrows ncols dx =
     \<lparr>lin_diffuse = (\<lambda>dt st z. case diffusion_step D dt dx nrows ncols st z of
                                  Inr z' \<Rightarrow> z' | Inl e \<Rightarrow> z),
      fr = route nrows ncols dx,
      erode = (\<lambda>dt st f z. case fluvial_step K_sp m_sp threshold dt ncols dx st f z of
                              Inr z' \<Rightarrow> z' | Inl e \<Rightarrow> z)\<rparr>"

text \<open>
  Modelled from the spec: the per-step sequence as section 4.7 words it, for comparison
  with \<open>loop_body\<close>: routing first, on the elevation the step starts with, then
  diffusion, then the fluvial step with that routing, then the record, then the uplift.
\<close>

definition spec_sequence :: "components \<Rightarrow> int \<Rightarrow> real \<Rightarrow> nat \<Rightarrow> grid \<Rightarrow> grid" where
  "spec_sequence c dt uplift_per_step i mg =
     (let mg1 = (if i > 900 then window_open mg else mg);
          mg2 = mg1\<lparr>flow := fr c (status_at_node mg1) (topographic__elevation mg1)\<rparr>;
          mg3 = mg2\<lparr>topographic__elevation :=
                  lin_diffuse c (real_of_int dt) (status_at_node mg2) (topographic__elevation mg2)\<rparr>;
          mg4 = mg3\<lparr>topographic__elevation :=
                  erode c (real_of_int dt) (status_at_node mg3) (flow mg3) (topographic__elevation mg3)\<rparr>;
          mg5 = (if i > 900 then window_close mg4 else mg4)
      in mg5\<lparr>topographic__elevation :=
              uplift (status_at_node mg5) (topographic__elevation mg5) uplift_per_step\<rparr>)"

section \<open>Properties of the script\<close>

subsection \<open>Index-array writes\<close>

lemma length_assign_at: "length (assign_at a idx v) = length a"
  unfolding assign_at_def by (induction idx arbitrary: a) simp_all

lemma assign_at_nth:
  "k < length a \<Longrightarrow> assign_at a idx v ! k = (if k \<in> set idx then v else a ! k)"
  unfolding assign_at_def
proof (induction idx arbitrary: a)
  case Nil
  then show ?case by simp
next
  case (Cons i idx)
  have "k < length (a[i := v])" using Cons.prems by simp
  from Cons.IH[OF this] show ?case using Cons.prems
    by (auto simp: nth_list_update)
qed

lemma scatter_length:
  "length (fold (\<lambda>(i, x) acc. acc[i := x]) ps a) = length a"
  by (induction ps arbitrary: a) (simp_all add: case_prod_unfold)

lemma scatter_nth_notin:
  "k \<notin> fst ` set ps \<Longrightarrow> fold (\<lambda>(i, x) acc. acc[i := x]) ps a ! k = a ! k"
  by (induction ps arbitrary: a) (auto simp: case_prod_unfold)

lemma scatter_nth_in:
  "k < length a \<Longrightarrow> k \<in> fst ` set ps \<Longrightarrow> \<forall>p \<in> set ps. fst p = k \<longrightarrow> snd p = y \<Longrightarrow>
   fold (\<lambda>(i, x) acc. acc[i := x]) ps a ! k = y"
proof (induction ps arbitrary: a)
  case Nil
  then show ?case by simp
next
  case (Cons p ps)
  obtain i x where p: "p = (i, x)" by (cases p)
  show ?case
  proof (cases "k \<in> fst ` set ps")
    case True
    then show ?thesis using Cons.IH[of "a[i := x]"] Cons.prems p by simp
  next
    case False
    then have ki: "k = i" using Cons.prems p by auto
    then have "x = y" using Cons.prems p by simp
    then show ?thesis using False ki Cons.prems p
      by (simp add: scatter_nth_notin)
  qed
qed

lemma length_add_at: "length (add_at a idx v) = length a"
  unfolding add_at_def by (rule scatter_length)

lemma add_at_nth:
  "k < length a \<Longrightarrow> add_at a idx v ! k = (if k \<in> set idx then a ! k + v else a ! k)"
proof (cases "k \<in> set idx")
  case False
  then have "k \<notin> fst ` set (zip idx (map (\<lambda>i. a ! i + v) idx))"
    by (auto dest: set_zip_leftD)
  then show ?thesis using False unfolding add_at_def by (simp add: scatter_nth_notin)
next
  case True
  assume k: "k < length a"
  have 1: "k \<in> fst ` set (zip idx (map (\<lambda>i. a ! i + v) idx))"
  proof -
    have "map fst (zip idx (map (\<lambda>i. a ! i + v) idx)) = idx" by (simp add: map_fst_zip)
    then have "fst ` set (zip idx (map (\<lambda>i. a ! i + v) idx)) = set idx"
      by (metis set_map)
    then show ?thesis using True by simp
  qed
  have 2: "\<forall>p \<in> set (zip idx (map (\<lambda>i. a ! i + v) idx)). fst p = k \<longrightarrow> snd p = a ! k + v"
    by (auto simp: set_zip)
  show ?thesis using True scatter_nth_in[OF k 1 2] unfolding add_at_def by simp
qed

lemma set_core_nodes: "set (core_nodes st) = {i. i < length st \<and> st ! i = CORE}"
  unfolding core_nodes_def by auto

lemma uplift_nth:
  "length st = length z \<Longrightarrow> k < length z \<Longrightarrow>
   uplift st z u ! k = (if st ! k = CORE then z ! k + u else z ! k)"
  unfolding uplift_def by (simp add: add_at_nth set_core_nodes)

subsection \<open>The loop body and the loop\<close>

lemma length_isub: "length (isub a b) = min (length a) (length b)"
  by (simp add: isub_def)
lemma length_iadd: "length (iadd a b) = min (length a) (length b)"
  by (simp add: iadd_def)
lemma isub_nth: "k < length a \<Longrightarrow> k < length b \<Longrightarrow> isub a b ! k = a ! k - b ! k"
  by (simp add: isub_def)
lemma iadd_nth: "k < length a \<Longrightarrow> k < length b \<Longrightarrow> iadd a b ! k = a ! k + b ! k"
  by (simp add: iadd_def)
lemma length_uplift: "length (uplift st z u) = length z"
  by (simp add: uplift_def length_add_at)

lemma length_processes:
  "keeps_size c (length z) \<Longrightarrow> length (processes c dt st z) = length z"
  by (simp add: processes_def keeps_size_def Let_def)

lemma loop_body_status: "status_at_node (loop_body c dt u i mg) = status_at_node mg"
  by (simp add: loop_body_def window_open_def window_close_def Let_def)

lemma loop_body_elevation:
  "topographic__elevation (loop_body c dt u i mg) =
     uplift (status_at_node mg) (processes c dt (status_at_node mg) (topographic__elevation mg)) u"
  by (simp add: loop_body_def window_open_def window_close_def processes_def Let_def)

lemma loop_body_flow:
  "flow (loop_body c dt u i mg) =
     fr c (status_at_node mg)
       (lin_diffuse c (real_of_int dt) (status_at_node mg) (topographic__elevation mg))"
  by (simp add: loop_body_def window_open_def window_close_def Let_def)

lemma loop_body_t_erode_dep:
  "t_erode_dep (loop_body c dt u i mg) =
     (if i > 900
      then iadd (t_erode_dep mg)
             (isub (iadd (isub (erode_dep mg) (erode_dep mg)) (topographic__elevation mg))
                (processes c dt (status_at_node mg) (topographic__elevation mg)))
      else t_erode_dep mg)"
  by (simp add: loop_body_def window_open_def window_close_def processes_def Let_def)

lemma loop_body_erode_dep:
  "erode_dep (loop_body c dt u i mg) =
     (if i > 900
      then isub (iadd (isub (erode_dep mg) (erode_dep mg)) (topographic__elevation mg))
                (processes c dt (status_at_node mg) (topographic__elevation mg))
      else erode_dep mg)"
  by (simp add: loop_body_def window_open_def window_close_def processes_def Let_def)

lemma loop_body_same_size:
  "keeps_size c (length (topographic__elevation mg)) \<Longrightarrow> same_size mg \<Longrightarrow>
   same_size (loop_body c dt u i mg)"
  by (simp add: same_size_def loop_body_status loop_body_elevation loop_body_t_erode_dep
      loop_body_erode_dep length_uplift length_processes length_isub length_iadd)

lemma loop_body_length:
  "keeps_size c (length (topographic__elevation mg)) \<Longrightarrow>
   length (topographic__elevation (loop_body c dt u i mg)) = length (topographic__elevation mg)"
  by (simp add: loop_body_elevation length_uplift length_processes)

lemma run_loop_Suc:
  "run_loop c dt u (Suc n) mg = loop_body c dt u n (run_loop c dt u n mg)"
  by (simp add: run_loop_def)

lemma run_loop_0: "run_loop c dt u 0 mg = mg"
  by (simp add: run_loop_def)

lemma run_loop_status: "status_at_node (run_loop c dt u n mg) = status_at_node mg"
  by (induction n) (simp_all add: run_loop_0 run_loop_Suc loop_body_status)

lemma run_loop_elevation:
  "topographic__elevation (run_loop c dt u n mg) =
     elevation_at c dt u (status_at_node mg) (topographic__elevation mg) n"
  by (induction n)
     (simp_all add: run_loop_0 run_loop_Suc loop_body_elevation run_loop_status elevation_at_def)

lemma run_loop_length:
  "keeps_size c (length (topographic__elevation mg)) \<Longrightarrow>
   length (topographic__elevation (run_loop c dt u n mg)) = length (topographic__elevation mg)"
  by (induction n) (simp_all add: run_loop_0 run_loop_Suc loop_body_length)

lemma run_loop_same_size:
  "keeps_size c (length (topographic__elevation mg)) \<Longrightarrow> same_size mg \<Longrightarrow>
   same_size (run_loop c dt u n mg)"
  by (induction n) (simp_all add: run_loop_0 run_loop_Suc loop_body_same_size run_loop_length)

lemma loop_body_t_nth:
  assumes "keeps_size c (length (topographic__elevation mg))" "same_size mg"
    "k < length (topographic__elevation mg)"
  shows "t_erode_dep (loop_body c dt u i mg) ! k =
     (if i > 900
      then t_erode_dep mg ! k +
        (topographic__elevation mg ! k - processes c dt (status_at_node mg) (topographic__elevation mg) ! k)
      else t_erode_dep mg ! k)"
  using assms
  by (simp add: loop_body_t_erode_dep same_size_def iadd_nth isub_nth length_isub length_iadd
      length_processes)

lemma run_loop_t_nth:
  assumes "keeps_size c (length (topographic__elevation mg))" "same_size mg"
    "k < length (topographic__elevation mg)"
  shows "t_erode_dep (run_loop c dt u n mg) ! k =
     t_erode_dep mg ! k +
       (\<Sum>i \<in> {901 ..< n}. recorded c dt u (status_at_node mg) (topographic__elevation mg) i k)"
proof (induction n)
  case 0
  then show ?case by (simp add: run_loop_0)
next
  case (Suc n)
  let ?g = "run_loop c dt u n mg"
  have ss: "same_size ?g" using assms by (simp add: run_loop_same_size)
  have kl: "k < length (topographic__elevation ?g)" using assms by (simp add: run_loop_length)
  have ks: "keeps_size c (length (topographic__elevation ?g))"
    using assms(1) by (simp add: run_loop_length)
  show ?case
  proof (cases "n > 900")
    case True
    then have "{901 ..< Suc n} = insert n {901 ..< n}" by auto
    then have "(\<Sum>i \<in> {901 ..< Suc n}. recorded c dt u (status_at_node mg) (topographic__elevation mg) i k)
        = recorded c dt u (status_at_node mg) (topographic__elevation mg) n k +
          (\<Sum>i \<in> {901 ..< n}. recorded c dt u (status_at_node mg) (topographic__elevation mg) i k)"
      by simp
    then show ?thesis using True Suc
      by (simp add: run_loop_Suc loop_body_t_nth[OF ks ss kl] run_loop_elevation
          run_loop_status recorded_def)
  next
    case False
    then have "{901 ..< Suc n} = {}" "{901 ..< n} = {}" by auto
    then show ?thesis using False Suc
      by (simp add: run_loop_Suc loop_body_t_nth[OF ks ss kl])
  qed
qed


subsection \<open>Boundary setup\<close>

lemma edge_facts:
  assumes "0 < nrows" "0 < ncols"
  shows "0 \<in> set (nodes_at_left_edge nrows ncols)"
    and "ncols - 1 \<in> set (nodes_at_right_edge nrows ncols)"
    and "(nrows - 1) * ncols \<in> set (nodes_at_left_edge nrows ncols)"
    and "nrows * ncols - 1 \<in> set (nodes_at_right_edge nrows ncols)"
    and "0 \<in> set (nodes_at_bottom_edge nrows ncols)"
    and "ncols - 1 \<in> set (nodes_at_bottom_edge nrows ncols)"
    and "(nrows - 1) * ncols \<in> set (nodes_at_top_edge nrows ncols)"
    and "nrows * ncols - 1 \<in> set (nodes_at_top_edge nrows ncols)"
proof -
  show "0 \<in> set (nodes_at_left_edge nrows ncols)"
    using assms by (force simp: nodes_at_left_edge_def)
  have "0 * ncols + (ncols - 1) \<in> set (nodes_at_right_edge nrows ncols)"
    unfolding nodes_at_right_edge_def using assms by (intro image_eqI[where x=0] | simp)+
  then show "ncols - 1 \<in> set (nodes_at_right_edge nrows ncols)" by simp
  show "(nrows - 1) * ncols \<in> set (nodes_at_left_edge nrows ncols)"
    using assms by (force simp: nodes_at_left_edge_def)
  have eq: "nrows * ncols - 1 = (nrows - 1) * ncols + (ncols - 1)"
  proof -
    obtain r where r: "nrows = Suc r" using assms by (cases nrows) auto
    obtain q where q: "ncols = Suc q" using assms by (cases ncols) auto
    show ?thesis by (simp add: r q)
  qed
  have "(nrows - 1) * ncols + (ncols - 1) \<in> set (nodes_at_right_edge nrows ncols)"
    unfolding nodes_at_right_edge_def using assms by force
  then show "nrows * ncols - 1 \<in> set (nodes_at_right_edge nrows ncols)" using eq by simp
  show "0 \<in> set (nodes_at_bottom_edge nrows ncols)"
    using assms by (simp add: nodes_at_bottom_edge_def)
  show "ncols - 1 \<in> set (nodes_at_bottom_edge nrows ncols)"
    using assms by (simp add: nodes_at_bottom_edge_def)
  have le: "(nrows - 1) * ncols < nrows * ncols" using assms
    by (metis Suc_diff_1 lessI mult_less_cancel2)
  show "(nrows - 1) * ncols \<in> set (nodes_at_top_edge nrows ncols)"
    using le by (simp add: nodes_at_top_edge_def)
  show "nrows * ncols - 1 \<in> set (nodes_at_top_edge nrows ncols)"
  proof -
    have "(nrows - 1) * ncols \<le> nrows * ncols - 1" using le by linarith
    moreover have "nrows * ncols - 1 < nrows * ncols" using le by linarith
    ultimately show ?thesis by (simp add: nodes_at_top_edge_def)
  qed
qed

lemma set_boundaries_nth:
  assumes "k < length st"
  shows "set_boundaries nrows ncols st ! k =
     (if k \<in> set (nodes_at_left_edge nrows ncols) \<union> set (nodes_at_right_edge nrows ncols) then CLOSED
      else if k \<in> set (nodes_at_top_edge nrows ncols) \<union> set (nodes_at_bottom_edge nrows ncols)
      then FIXED_VALUE else st ! k)"
  using assms by (simp add: set_boundaries_def assign_at_nth length_assign_at)

lemma corner_in_range:
  assumes "0 < nrows" "0 < ncols"
  shows "\<forall>c \<in> set (corner_nodes nrows ncols). c < nrows * ncols"
proof -
  have le: "(nrows - 1) * ncols < nrows * ncols" using assms
    by (metis Suc_diff_1 lessI mult_less_cancel2)
  have "ncols - 1 < nrows * ncols" using assms
    by (metis One_nat_def Suc_pred diff_less less_le_trans less_one mult.commute
        mult_le_mono2 nat_mult_1_right Suc_leI)
  then show ?thesis using assms le by (auto simp: corner_nodes_def)
qed

text \<open>
  Claim C9. After the boundary setup the four corner nodes are CLOSED, not FIXED_VALUE.
  Each corner lies on the top or bottom edge and on the left or right edge; the first loop
  leaves it FIXED_VALUE, and the second loop, which runs later, overwrites it with CLOSED.
  This holds for every raster with at least one row and one column, whatever the status
  array held before.
\<close>

theorem corners_closed:
  assumes "0 < nrows" "0 < ncols" "length st = nrows * ncols"
  shows "\<forall>c \<in> set (corner_nodes nrows ncols).
           c \<in> set (nodes_at_top_edge nrows ncols) \<union> set (nodes_at_bottom_edge nrows ncols) \<and>
           c \<in> set (nodes_at_left_edge nrows ncols) \<union> set (nodes_at_right_edge nrows ncols) \<and>
           assign_at (assign_at st (nodes_at_top_edge nrows ncols) FIXED_VALUE)
             (nodes_at_bottom_edge nrows ncols) FIXED_VALUE ! c = FIXED_VALUE \<and>
           set_boundaries nrows ncols st ! c = CLOSED"
proof
  fix c assume c: "c \<in> set (corner_nodes nrows ncols)"
  have r: "c < length st" using corner_in_range[OF assms(1,2)] c assms(3) by simp
  have tb: "c \<in> set (nodes_at_top_edge nrows ncols) \<union> set (nodes_at_bottom_edge nrows ncols)"
    using c edge_facts[OF assms(1,2)] by (auto simp: corner_nodes_def)
  have lr: "c \<in> set (nodes_at_left_edge nrows ncols) \<union> set (nodes_at_right_edge nrows ncols)"
    using c edge_facts[OF assms(1,2)] by (auto simp: corner_nodes_def)
  have fv: "assign_at (assign_at st (nodes_at_top_edge nrows ncols) FIXED_VALUE)
             (nodes_at_bottom_edge nrows ncols) FIXED_VALUE ! c = FIXED_VALUE"
    using r tb by (auto simp: assign_at_nth length_assign_at)
  have "set_boundaries nrows ncols st ! c = CLOSED"
    using lr r by (simp add: set_boundaries_nth)
  then show "c \<in> set (nodes_at_top_edge nrows ncols) \<union> set (nodes_at_bottom_edge nrows ncols) \<and>
           c \<in> set (nodes_at_left_edge nrows ncols) \<union> set (nodes_at_right_edge nrows ncols) \<and>
           assign_at (assign_at st (nodes_at_top_edge nrows ncols) FIXED_VALUE)
             (nodes_at_bottom_edge nrows ncols) FIXED_VALUE ! c = FIXED_VALUE \<and>
           set_boundaries nrows ncols st ! c = CLOSED"
    using tb lr fv by simp
qed

theorem corners_closed_witness:
  "set_boundaries 5 5 (initial_status 5 5) ! 0 = CLOSED \<and>
   set_boundaries 5 5 (initial_status 5 5) ! 4 = CLOSED \<and>
   set_boundaries 5 5 (initial_status 5 5) ! 20 = CLOSED \<and>
   set_boundaries 5 5 (initial_status 5 5) ! 24 = CLOSED"
proof -
  have l: "length (initial_status 5 5) = 5 * 5" by (simp add: initial_status_def)
  have "\<forall>c \<in> set (corner_nodes 5 5). set_boundaries 5 5 (initial_status 5 5) ! c = CLOSED"
    using corners_closed[of 5 5 "initial_status 5 5", OF _ _ l] by simp
  then show ?thesis by (simp add: corner_nodes_def)
qed

subsection \<open>Uplift\<close>

text \<open>
  Claim C4. The uplift statement adds \<open>uplift_rate * dt\<close> to the elevation of every CORE
  node and leaves every other node as it was. The array keeps its length and every index
  the statement uses is inside the array, so the statement cannot raise.
\<close>

theorem uplift_core_only:
  assumes "length st = length z"
  shows "length (uplift st z (uplift_per_step_of uplift_rate dt)) = length z \<and>
         set (core_nodes st) \<subseteq> {..< length z} \<and>
         (\<forall>k < length z. uplift st z (uplift_per_step_of uplift_rate dt) ! k =
            (if st ! k = CORE then z ! k + uplift_rate * real_of_int dt else z ! k))"
  using assms
  by (auto simp: length_uplift uplift_nth uplift_per_step_of_def set_core_nodes)

theorem uplift_core_only_witness:
  "uplift [CORE, FIXED_VALUE, CLOSED] [1, 2, 3] (uplift_per_step_of 0.0012 10) ! 0 = 1 + 0.0012 * 10 \<and>
   uplift [CORE, FIXED_VALUE, CLOSED] [1, 2, 3] (uplift_per_step_of 0.0012 10) ! 1 = 2 \<and>
   uplift [CORE, FIXED_VALUE, CLOSED] [1, 2, 3] (uplift_per_step_of 0.0012 10) ! 2 = 3"
proof -
  have l: "length [CORE, FIXED_VALUE, CLOSED] = length [1, 2, 3 :: real]" by simp
  have a: "\<forall>k < 3. uplift [CORE, FIXED_VALUE, CLOSED] [1, 2, 3] (uplift_per_step_of 0.0012 10) ! k =
            (if [CORE, FIXED_VALUE, CLOSED] ! k = CORE then [1, 2, 3] ! k + 0.0012 * real_of_int 10
             else [1, 2, 3] ! k)"
    using uplift_core_only[OF l, of "0.0012" 10] by simp
  have "(0::nat) < 3" "(1::nat) < 3" "(2::nat) < 3" by simp_all
  from a[rule_format, OF this(1)] a[rule_format, OF this(2)] a[rule_format, OF this(3)]
  show ?thesis by simp
qed

subsection \<open>The erosion ledger\<close>

lemma scale_nth: "k < length a \<Longrightarrow> scale a c ! k = a ! k * c"
  by (simp add: scale_def)

text \<open>
  Claim C10. In a pass inside the window (\<open>i > 900\<close>) the script sets \<^verbatim>\<open>erode_dep\<close> to
  the elevation before the diffusion and fluvial updates minus the elevation after them, and
  adds that to \<^verbatim>\<open>t_erode_dep\<close>. A node that lost elevation contributes a positive
  amount (erosion), a node that gained elevation a negative one (deposition); the final
  factor \<^verbatim>\<open>0.001\<close> is positive and keeps the sign.
\<close>

theorem window_pass_records_loss:
  assumes "keeps_size c (length (topographic__elevation mg))" and "same_size mg"
    and "k < length (topographic__elevation mg)"
    and "900 < i"
  shows "erode_dep (loop_body c dt u i mg) ! k =
           topographic__elevation mg ! k
           - processes c dt (status_at_node mg) (topographic__elevation mg) ! k
         \<and> t_erode_dep (loop_body c dt u i mg) ! k =
           t_erode_dep mg ! k +
           (topographic__elevation mg ! k
            - processes c dt (status_at_node mg) (topographic__elevation mg) ! k)"
proof -
  have e: "erode_dep (loop_body c dt u i mg) ! k =
           topographic__elevation mg ! k
           - processes c dt (status_at_node mg) (topographic__elevation mg) ! k"
    using assms
    by (simp add: loop_body_erode_dep same_size_def iadd_nth isub_nth length_isub length_iadd
        length_processes)
  show ?thesis using e loop_body_t_nth[OF assms(1,2,3), of dt u i] assms(4) by simp
qed

lemma simulate_t_nth:
  assumes "keeps_size c (length (topographic__elevation mg))" "same_size mg"
    "k < length (topographic__elevation mg)"
  shows "t_erode_dep (simulate c dt u nt mg) ! k =
     (\<Sum>i \<in> {901 ..< nat (nt + 1)}. recorded c dt u (status_at_node mg) (topographic__elevation mg) i k) * 0.001"
proof -
  let ?mg0 = "mg\<lparr>t_erode_dep := isub (t_erode_dep mg) (t_erode_dep mg)\<rparr>"
  have ss: "same_size ?mg0" using assms(2) by (simp add: same_size_def length_isub)
  have k0: "k < length (topographic__elevation ?mg0)" using assms(3) by simp
  have ks: "keeps_size c (length (topographic__elevation ?mg0))" using assms(1) by simp
  have z: "t_erode_dep ?mg0 ! k = 0" using assms(2,3) by (simp add: same_size_def isub_nth)
  have len: "k < length (t_erode_dep (run_loop c dt u (nat (nt + 1)) ?mg0))"
    using run_loop_same_size[OF ks ss, of dt u "nat (nt + 1)"]
      run_loop_length[OF ks, of dt u "nat (nt + 1)"] assms(3)
    by (simp add: same_size_def)
  show ?thesis
    using run_loop_t_nth[OF ks ss k0, of dt u "nat (nt + 1)"] z len
    by (simp add: simulate_def Let_def scale_nth)
qed

text \<open>
  Claim C3, as amended. The window of the script is the passes with index \<open>i > 900\<close>,
  that is \<open>901, ..., nt\<close>: there are \<open>nt - 900\<close> of them, and none when \<open>nt\<close> is at most
  \<open>900\<close>. The reported value at a node is the sum over exactly these passes of the
  elevation before the diffusion and fluvial updates minus the elevation after them
  (\<open>recorded\<close>; the uplift of a pass is added after its record is taken, so no recorded
  difference holds it), times the factor \<^verbatim>\<open>0.001\<close>. The window start and the factor are
  constants of the script: the factor is the reciprocal of the window's duration exactly
  when \<open>(nt - 900) * dt = 1000\<close>, as for the script's \<open>nt = 1000\<close> and \<open>dt = 10\<close>.
\<close>

theorem fixed_window_rate:
  assumes "keeps_size c (length (topographic__elevation mg))" and "same_size mg"
    and "k < length (topographic__elevation mg)"
  shows "t_erode_dep (simulate c dt u nt mg) ! k =
           (\<Sum>i \<in> {901 ..< nat (nt + 1)}.
              recorded c dt u (status_at_node mg) (topographic__elevation mg) i k) * 0.001 \<and>
         card {901 ..< nat (nt + 1)} = nat (nt - 900) \<and>
         ((1 / (real (nat (nt - 900)) * real_of_int dt) = 0.001) = (int (nat (nt - 900)) * dt = 1000))"
proof -
  have c: "card {901 ..< nat (nt + 1)} = nat (nt - 900)" by simp
  let ?x = "int (nat (nt - 900)) * dt"
  have x: "real (nat (nt - 900)) * real_of_int dt = real_of_int ?x" by simp
  have g: "(1 / y = 1 / 1000) = (y = 1000)" for y :: real
    by (cases "y = 0") (simp_all add: field_simps)
  have "(1 / real_of_int ?x = 1 / 1000) = (real_of_int ?x = 1000)" by (rule g)
  also have "\<dots> = (?x = 1000)" by (metis of_int_eq_iff of_int_numeral)
  finally have f: "(1 / (real (nat (nt - 900)) * real_of_int dt) = 0.001) = (?x = 1000)"
    unfolding x by simp
  show ?thesis using simulate_t_nth[OF assms(1,2,3), of dt u nt] c f by blast
qed

lemma same_size_make_grid:
  "length z = nrows * ncols \<Longrightarrow> same_size (make_grid nrows ncols z)"
  by (simp add: same_size_def make_grid_def set_boundaries_def length_assign_at initial_status_def)

subsection \<open>Order of the calls in one pass\<close>

text \<open>
  Claim C1, as amended. In every pass the diffuser runs first, on the elevation the pass
  starts with; the accumulator then routes the diffused elevation; the eroder works on the
  diffused elevation with that routing; inside the window the record is taken from the
  elevation the eroder leaves; the uplift comes last.
\<close>

theorem loop_body_order:
  "flow (loop_body c dt u i mg) =
     fr c (status_at_node mg)
       (lin_diffuse c (real_of_int dt) (status_at_node mg) (topographic__elevation mg)) \<and>
   processes c dt (status_at_node mg) (topographic__elevation mg) =
     erode c (real_of_int dt) (status_at_node mg) (flow (loop_body c dt u i mg))
       (lin_diffuse c (real_of_int dt) (status_at_node mg) (topographic__elevation mg)) \<and>
   t_erode_dep (loop_body c dt u i mg) =
     (if i > 900
      then iadd (t_erode_dep mg)
             (isub (iadd (isub (erode_dep mg) (erode_dep mg)) (topographic__elevation mg))
                (processes c dt (status_at_node mg) (topographic__elevation mg)))
      else t_erode_dep mg) \<and>
   topographic__elevation (loop_body c dt u i mg) =
     uplift (status_at_node mg)
       (processes c dt (status_at_node mg) (topographic__elevation mg)) u"
  by (simp add: loop_body_flow loop_body_elevation loop_body_t_erode_dep processes_def Let_def)

section \<open>Properties of the flow router\<close>

subsection \<open>Receivers\<close>

lemma neighbors_in_range:
  assumes "j \<in> set (neighbors nrows ncols i)"
  shows "j < nrows * ncols"
proof -
  from assms obtain x where x: "x < nrows"
    and j: "j < min ncols (Suc (Suc (i mod ncols))) + x * ncols"
    by (auto simp: neighbors_def Let_def)
  have "j < ncols + x * ncols" using j by simp
  also have "\<dots> = Suc x * ncols" by simp
  also have "\<dots> \<le> nrows * ncols" using x by (simp only: mult_le_mono1 Suc_leI)
  finally show ?thesis .
qed

lemma lowest_in_set: "lowest z js = Some b \<Longrightarrow> b \<in> set js"
  by (induction js arbitrary: b) (auto split: option.splits if_splits)

lemma lowest_None: "lowest z js = None \<longleftrightarrow> js = []"
  by (cases js) (auto split: option.splits)

lemma lowest_le: "lowest z js = Some b \<Longrightarrow> j \<in> set js \<Longrightarrow> z ! b \<le> z ! j"
  by (induction js arbitrary: b) (fastforce split: option.splits if_splits simp: lowest_None)+

lemma receiver_of_cases:
  "receiver_of nrows ncols st z i = i \<or>
   (st ! i = CORE \<and> receiver_of nrows ncols st z i \<in> set (valid_neighbors nrows ncols st i) \<and>
    z ! receiver_of nrows ncols st z i < z ! i)"
  by (auto simp: receiver_of_def split: option.splits dest: lowest_in_set)

lemma receiver_of_in_range:
  "i < nrows * ncols \<Longrightarrow> receiver_of nrows ncols st z i < nrows * ncols"
  using receiver_of_cases[of nrows ncols st z i]
  by (auto simp: valid_neighbors_def dest: neighbors_in_range)

lemma receiver_of_lower:
  "receiver_of nrows ncols st z i \<noteq> i \<Longrightarrow> z ! receiver_of nrows ncols st z i < z ! i"
  using receiver_of_cases[of nrows ncols st z i] by auto

lemma receiver_of_open:
  "receiver_of nrows ncols st z i \<noteq> i \<Longrightarrow> st ! receiver_of nrows ncols st z i \<noteq> CLOSED"
  using receiver_of_cases[of nrows ncols st z i] by (auto simp: valid_neighbors_def)

lemma route_receiver:
  "i < nrows * ncols \<Longrightarrow>
   flow__receiver_node (route nrows ncols dx st z) ! i = receiver_of nrows ncols st z i"
  by (simp add: route_def Let_def)

text \<open>
  A successor function on the first \<open>n\<close> naturals that strictly lowers a real-valued
  height wherever it moves has no cycle but fixed points, and reaches a fixed point.
\<close>

lemma descent_iter_in_range:
  assumes "\<And>j. j < n \<Longrightarrow> f j < n" "i < n"
  shows "(f ^^ k) i < n"
  using assms by (induction k) simp_all

lemma descent_iter_le:
  fixes h :: "nat \<Rightarrow> real"
  assumes rng: "\<And>j. j < n \<Longrightarrow> f j < n"
    and low: "\<And>j. j < n \<Longrightarrow> f j \<noteq> j \<Longrightarrow> h (f j) < h j"
    and i: "i < n"
  shows "h ((f ^^ k) i) \<le> h i"
proof (induction k)
  case 0
  then show ?case by simp
next
  case (Suc k)
  have r: "(f ^^ k) i < n" using descent_iter_in_range[OF rng i] by simp
  have "h (f ((f ^^ k) i)) \<le> h ((f ^^ k) i)"
    using low[OF r] by (cases "f ((f ^^ k) i) = (f ^^ k) i") auto
  then show ?case using Suc by simp
qed

lemma descent_no_cycle:
  fixes h :: "nat \<Rightarrow> real"
  assumes rng: "\<And>j. j < n \<Longrightarrow> f j < n"
    and low: "\<And>j. j < n \<Longrightarrow> f j \<noteq> j \<Longrightarrow> h (f j) < h j"
    and i: "i < n" and k: "0 < k" and cyc: "(f ^^ k) i = i"
  shows "f i = i"
proof (rule ccontr)
  assume ne: "f i \<noteq> i"
  obtain m where m: "k = Suc m" using k by (cases k) auto
  have fi: "f i < n" using rng i by simp
  have "(f ^^ k) i = (f ^^ m) (f i)" unfolding m by (simp add: funpow_swap1)
  then have "h ((f ^^ k) i) \<le> h (f i)"
    using descent_iter_le[where n=n and f=f and h=h and i="f i" and k=m] rng low fi by simp
  also have "\<dots> < h i" using low[OF i ne] .
  finally show False using cyc by simp
qed

lemma descent_reaches_root:
  fixes h :: "nat \<Rightarrow> real"
  assumes rng: "\<And>j. j < n \<Longrightarrow> f j < n"
    and low: "\<And>j. j < n \<Longrightarrow> f j \<noteq> j \<Longrightarrow> h (f j) < h j"
    and i: "i < n"
  shows "\<exists>k \<le> card {j. j < n \<and> h j < h i}. f ((f ^^ k) i) = (f ^^ k) i"
  using i
proof (induction "card {j. j < n \<and> h j < h i}" arbitrary: i rule: less_induct)
  case less
  show ?case
  proof (cases "f i = i")
    case True
    then have "f ((f ^^ 0) i) = (f ^^ 0) i" by simp
    then show ?thesis by blast
  next
    case False
    have fi: "f i < n" using rng less.prems by simp
    have lt: "h (f i) < h i" using low[OF less.prems False] .
    have sub: "{j. j < n \<and> h j < h (f i)} \<subset> {j. j < n \<and> h j < h i}"
      using lt fi by (auto simp: psubset_eq)
    have fin: "finite {j. j < n \<and> h j < h i}" by simp
    have c: "card {j. j < n \<and> h j < h (f i)} < card {j. j < n \<and> h j < h i}"
      using psubset_card_mono[OF fin sub] .
    from less.hyps[OF c fi] obtain k where
      k: "k \<le> card {j. j < n \<and> h j < h (f i)}" and root: "f ((f ^^ k) (f i)) = (f ^^ k) (f i)"
      by blast
    have "f ((f ^^ Suc k) i) = (f ^^ Suc k) i" using root by (simp add: funpow_swap1)
    moreover have "Suc k \<le> card {j. j < n \<and> h j < h i}" using k c by simp
    ultimately show ?thesis by blast
  qed
qed

lemma card_lower_le: "card {j. j < n \<and> P j} \<le> n"
proof -
  have "card {j. j < n \<and> P j} \<le> card {..<n}"
    by (rule card_mono) auto
  then show ?thesis by simp
qed

text \<open>
  Claim C7. For every elevation field, ties included, the receiver relation has no cycle
  but the self-loops of the roots: a node that comes back to itself after one or more
  receiver steps is its own receiver. Every node reaches a root (a node that is its own
  receiver) within as many steps as there are nodes, so the relation is a forest. Only
  CORE nodes have a receiver other than themselves, and that receiver is strictly lower.
\<close>

theorem receivers_form_forest:
  assumes "length st = nrows * ncols" and "length z = nrows * ncols" and "i < nrows * ncols"
  shows "(\<forall>k > 0. ((\<lambda>j. flow__receiver_node (route nrows ncols dx st z) ! j) ^^ k) i = i \<longrightarrow>
            flow__receiver_node (route nrows ncols dx st z) ! i = i) \<and>
         (\<exists>k \<le> nrows * ncols.
            flow__receiver_node (route nrows ncols dx st z) !
              (((\<lambda>j. flow__receiver_node (route nrows ncols dx st z) ! j) ^^ k) i) =
            ((\<lambda>j. flow__receiver_node (route nrows ncols dx st z) ! j) ^^ k) i) \<and>
         (flow__receiver_node (route nrows ncols dx st z) ! i \<noteq> i \<longrightarrow>
            st ! i = CORE \<and>
            z ! (flow__receiver_node (route nrows ncols dx st z) ! i) < z ! i)"
proof -
  let ?f = "\<lambda>j. flow__receiver_node (route nrows ncols dx st z) ! j"
  let ?n = "nrows * ncols"
  have rng: "\<And>j. j < ?n \<Longrightarrow> ?f j < ?n"
    by (simp add: route_receiver receiver_of_in_range)
  have low: "\<And>j. j < ?n \<Longrightarrow> ?f j \<noteq> j \<Longrightarrow> (\<lambda>j. z ! j) (?f j) < (\<lambda>j. z ! j) j"
    by (simp add: route_receiver receiver_of_lower)
  have a: "\<forall>k > 0. (?f ^^ k) i = i \<longrightarrow> ?f i = i"
    using descent_no_cycle[where n="?n" and f="?f" and h="\<lambda>j. z ! j" and i=i] rng low assms(3) by blast
  obtain k where k: "k \<le> card {j. j < ?n \<and> z ! j < z ! i}" and root: "?f ((?f ^^ k) i) = (?f ^^ k) i"
    using descent_reaches_root[where n="?n" and f="?f" and h="\<lambda>j. z ! j" and i=i] rng low assms(3) by blast
  have "k \<le> ?n" using k card_lower_le[of ?n "\<lambda>j. z ! j < z ! i"] by linarith
  then have b: "\<exists>k \<le> ?n. ?f ((?f ^^ k) i) = (?f ^^ k) i" using root by blast
  have c: "?f i \<noteq> i \<longrightarrow> st ! i = CORE \<and> z ! (?f i) < z ! i"
    using receiver_of_cases[of nrows ncols st z i] assms(3) by (auto simp: route_receiver)
  show ?thesis using a b c by blast
qed

lemma receiver_square9:
  "receiver_of 3 3 [CLOSED, FIXED_VALUE, CLOSED, CLOSED, CORE, CLOSED, CLOSED, FIXED_VALUE, CLOSED]
     [5, 5, 5, 5, 9, 5, 5, 5, 5] 4 = 1"
  by code_simp

theorem receivers_form_forest_witness:
  "[CLOSED, FIXED_VALUE, CLOSED, CLOSED, CORE, CLOSED, CLOSED, FIXED_VALUE, CLOSED] ! 4 = CORE \<and>
   [5, 5, 5, 5, 9, 5, 5, 5, 5 :: real] !
     (flow__receiver_node
        (route 3 3 1 [CLOSED, FIXED_VALUE, CLOSED, CLOSED, CORE, CLOSED, CLOSED, FIXED_VALUE, CLOSED]
           [5, 5, 5, 5, 9, 5, 5, 5, 5]) ! 4) < [5, 5, 5, 5, 9, 5, 5, 5, 5] ! 4"
proof -
  let ?st = "[CLOSED, FIXED_VALUE, CLOSED, CLOSED, CORE, CLOSED, CLOSED, FIXED_VALUE, CLOSED]"
  let ?z = "[5, 5, 5, 5, 9, 5, 5, 5, 5 :: real]"
  have l1: "length ?st = 3 * 3" by simp
  have l2: "length ?z = 3 * 3" by simp
  have i: "(4::nat) < 3 * 3" by simp
  have ne: "flow__receiver_node (route 3 3 1 ?st ?z) ! 4 \<noteq> 4"
    by (simp add: route_receiver receiver_square9)
  have "flow__receiver_node (route 3 3 1 ?st ?z) ! 4 \<noteq> 4 \<longrightarrow>
          ?st ! 4 = CORE \<and> ?z ! (flow__receiver_node (route 3 3 1 ?st ?z) ! 4) < ?z ! 4"
    using receivers_form_forest[OF l1 l2 i, of 1] by (elim conjE)
  from this[rule_format, OF ne] show ?thesis .
qed

subsection \<open>Drainage area\<close>

lemma sum_list_update_in:
  fixes a :: "real list"
  assumes "finite S" "r \<in> S" "r < length a"
  shows "(\<Sum>j \<in> S. a[r := v] ! j) = (\<Sum>j \<in> S. a ! j) - a ! r + v"
proof -
  have "(\<Sum>j \<in> S. a[r := v] ! j) = a[r := v] ! r + (\<Sum>j \<in> S - {r}. a[r := v] ! j)"
    using assms(1,2) by (rule sum.remove)
  also have "(\<Sum>j \<in> S - {r}. a[r := v] ! j) = (\<Sum>j \<in> S - {r}. a ! j)"
    by (rule sum.cong) auto
  also have "a[r := v] ! r = v" using assms(3) by simp
  finally have 1: "(\<Sum>j \<in> S. a[r := v] ! j) = v + (\<Sum>j \<in> S - {r}. a ! j)" .
  have 2: "(\<Sum>j \<in> S. a ! j) = a ! r + (\<Sum>j \<in> S - {r}. a ! j)"
    using assms(1,2) by (rule sum.remove)
  show ?thesis using 1 2 by simp
qed

lemma length_accumulate: "length (accumulate recv order a) = length a"
  unfolding accumulate_def by (induction order arbitrary: a) simp_all

lemma accumulate_Cons:
  "accumulate recv (i # xs) a =
     accumulate recv xs (if recv ! i \<noteq> i then a[recv ! i := a ! (recv ! i) + a ! i] else a)"
  by (simp add: accumulate_def)

lemma accumulate_conserves:
  fixes a :: "real list"
  assumes "distinct xs"
    and "\<forall>i \<in> set xs. i < length a \<and> recv ! i < length a \<and>
            (recv ! i = i \<or> recv ! i \<in> {j. j < length a \<and> recv ! j = j} \<union> set xs)"
    and "sorted_wrt (\<lambda>i j. recv ! j = i \<longrightarrow> recv ! j = j) xs"
  shows "(\<Sum>j \<in> {j. j < length a \<and> recv ! j = j}. accumulate recv xs a ! j) =
         (\<Sum>j \<in> {j. j < length a \<and> recv ! j = j} \<union> set xs. a ! j)"
  using assms
proof (induction xs arbitrary: a)
  case Nil
  then show ?case by (simp add: accumulate_def)
next
  case (Cons i xs)
  let ?R = "\<lambda>a::real list. {j. j < length a \<and> recv ! j = j}"
  have dist: "distinct xs" and inotin: "i \<notin> set xs" using Cons.prems(1) by auto
  have sw: "sorted_wrt (\<lambda>i j. recv ! j = i \<longrightarrow> recv ! j = j) xs"
    and later: "\<forall>j \<in> set xs. recv ! j = i \<longrightarrow> recv ! j = j"
    using Cons.prems(3) by auto
  have closed_rest: "\<And>b::real list. length b = length a \<Longrightarrow>
      \<forall>j \<in> set xs. j < length b \<and> recv ! j < length b \<and>
            (recv ! j = j \<or> recv ! j \<in> {j. j < length b \<and> recv ! j = j} \<union> set xs)"
  proof
    fix b :: "real list" and j assume lb: "length b = length a" and j: "j \<in> set xs"
    have p: "j < length a \<and> recv ! j < length a \<and>
            (recv ! j = j \<or> recv ! j \<in> ?R a \<union> set (i # xs))"
      using Cons.prems(2) j by auto
    have "recv ! j \<noteq> i \<or> recv ! j = j" using later j by blast
    then show "j < length b \<and> recv ! j < length b \<and>
            (recv ! j = j \<or> recv ! j \<in> {j. j < length b \<and> recv ! j = j} \<union> set xs)"
      using p lb by auto
  qed
  have il: "i < length a" and rl: "recv ! i < length a" using Cons.prems(2) by auto
  show ?case
  proof (cases "recv ! i = i")
    case True
    then have iR: "i \<in> ?R a" using il by simp
    have "(\<Sum>j \<in> ?R a. accumulate recv (i # xs) a ! j) = (\<Sum>j \<in> ?R a. accumulate recv xs a ! j)"
      using True by (simp add: accumulate_Cons)
    also have "\<dots> = (\<Sum>j \<in> ?R a \<union> set xs. a ! j)"
      using Cons.IH[OF dist closed_rest[OF refl] sw] .
    also have "?R a \<union> set xs = ?R a \<union> set (i # xs)" using iR by auto
    finally show ?thesis .
  next
    case False
    let ?r = "recv ! i"
    let ?a' = "a[?r := a ! ?r + a ! i]"
    let ?S = "?R a \<union> set xs"
    have la: "length ?a' = length a" by simp
    have rS: "?r \<in> ?S" using Cons.prems(2) False by auto
    have iS: "i \<notin> ?S" using False inotin by simp
    have fin: "finite ?S" by simp
    have "(\<Sum>j \<in> ?R a. accumulate recv (i # xs) a ! j) = (\<Sum>j \<in> ?R a. accumulate recv xs ?a' ! j)"
      using False by (simp add: accumulate_Cons)
    also have "\<dots> = (\<Sum>j \<in> ?R ?a'. accumulate recv xs ?a' ! j)" by simp
    also have "\<dots> = (\<Sum>j \<in> ?R ?a' \<union> set xs. ?a' ! j)"
      using Cons.IH[OF dist closed_rest[OF la] sw] .
    also have "\<dots> = (\<Sum>j \<in> ?S. ?a' ! j)" by simp
    also have "\<dots> = (\<Sum>j \<in> ?S. a ! j) - a ! ?r + (a ! ?r + a ! i)"
      using sum_list_update_in[OF fin rS rl] .
    also have "\<dots> = (\<Sum>j \<in> ?S. a ! j) + a ! i" by simp
    also have "\<dots> = (\<Sum>j \<in> insert i ?S. a ! j)" using fin iS by simp
    also have "insert i ?S = ?R a \<union> set (i # xs)" by auto
    finally show ?thesis .
  qed
qed

lemma set_decreasing_order: "set (decreasing_elevation_order z n) = {..< n}"
  by (auto simp: decreasing_elevation_order_def)

lemma distinct_decreasing_order: "distinct (decreasing_elevation_order z n)"
  by (simp add: decreasing_elevation_order_def)

lemma sorted_decreasing_order:
  "sorted_wrt (\<lambda>i j. z ! j \<le> z ! i) (decreasing_elevation_order z n)"
proof -
  have "sorted (map (\<lambda>i. - (z ! i)) (decreasing_elevation_order z n))"
    by (simp add: decreasing_elevation_order_def)
  then show ?thesis by (simp add: sorted_wrt_map)
qed

lemma order_receivers_later:
  assumes "\<And>j. j < n \<Longrightarrow> recv ! j \<noteq> j \<Longrightarrow> z ! (recv ! j) < z ! j"
  shows "sorted_wrt (\<lambda>i j. recv ! j = i \<longrightarrow> recv ! j = j) (decreasing_elevation_order z n)"
proof (rule sorted_wrt_mono_rel[OF _ sorted_decreasing_order])
  fix i j
  assume "i \<in> set (decreasing_elevation_order z n)" "j \<in> set (decreasing_elevation_order z n)"
    and le: "z ! j \<le> z ! i"
  then have j: "j < n" by (simp add: set_decreasing_order)
  show "recv ! j = i \<longrightarrow> recv ! j = j"
  proof (rule impI, rule ccontr)
    assume r: "recv ! j = i" and ne: "recv ! j \<noteq> j"
    have "z ! (recv ! j) < z ! j" using assms[OF j ne] .
    then show False using le r by simp
  qed
qed

lemma route_area_total:
  "(\<Sum>j \<in> {j. j < nrows * ncols \<and> flow__receiver_node (route nrows ncols dx st z) ! j = j}.
      drainage_area (route nrows ncols dx st z) ! j) = real (nrows * ncols) * (dx * dx)"
proof -
  let ?n = "nrows * ncols"
  let ?recv = "map (receiver_of nrows ncols st z) [0 ..< ?n]"
  let ?ord = "decreasing_elevation_order z ?n"
  let ?a0 = "replicate ?n (dx * dx)"
  have recv: "flow__receiver_node (route nrows ncols dx st z) = ?recv"
    by (simp add: route_def Let_def)
  have area: "drainage_area (route nrows ncols dx st z) = accumulate ?recv ?ord ?a0"
    by (simp add: route_def Let_def)
  have low: "\<And>j. j < ?n \<Longrightarrow> ?recv ! j \<noteq> j \<Longrightarrow> z ! (?recv ! j) < z ! j"
    by (simp add: receiver_of_lower)
  have cl: "\<forall>i \<in> set ?ord. i < length ?a0 \<and> ?recv ! i < length ?a0 \<and>
            (?recv ! i = i \<or> ?recv ! i \<in> {j. j < length ?a0 \<and> ?recv ! j = j} \<union> set ?ord)"
    by (auto simp: set_decreasing_order receiver_of_in_range)
  have "(\<Sum>j \<in> {j. j < length ?a0 \<and> ?recv ! j = j}. accumulate ?recv ?ord ?a0 ! j) =
         (\<Sum>j \<in> {j. j < length ?a0 \<and> ?recv ! j = j} \<union> set ?ord. ?a0 ! j)"
    by (rule accumulate_conserves[OF distinct_decreasing_order cl order_receivers_later[OF low]])
  also have "{j. j < length ?a0 \<and> ?recv ! j = j} \<union> set ?ord = {..< ?n}"
    by (auto simp: set_decreasing_order)
  also have "(\<Sum>j \<in> {..< ?n}. ?a0 ! j) = (\<Sum>j \<in> {..< ?n}. dx * dx)"
    by (rule sum.cong) simp_all
  also have "\<dots> = real ?n * (dx * dx)" by simp
  finally show ?thesis by (simp add: recv area)
qed

text \<open>
  Claim C8. The drainage areas at the nodes that are their own receivers add up to the
  area of the whole domain, \<open>nrows * ncols\<close> cells of \<open>dx * dx\<close> each; where a single
  node is its own receiver (a single-outlet configuration, every other node draining to
  it), its drainage area is the whole domain area.
\<close>

theorem outlet_area_is_domain_area:
  assumes "length st = nrows * ncols" and "length z = nrows * ncols"
  shows "(\<Sum>j \<in> {j. j < nrows * ncols \<and> flow__receiver_node (route nrows ncols dx st z) ! j = j}.
            drainage_area (route nrows ncols dx st z) ! j) = real (nrows * ncols) * (dx * dx) \<and>
         (\<forall>out < nrows * ncols.
            flow__receiver_node (route nrows ncols dx st z) ! out = out \<and>
            (\<forall>j < nrows * ncols. flow__receiver_node (route nrows ncols dx st z) ! j = j \<longrightarrow> j = out)
            \<longrightarrow> drainage_area (route nrows ncols dx st z) ! out = real (nrows * ncols) * (dx * dx))"
proof (intro conjI allI impI)
  show "(\<Sum>j \<in> {j. j < nrows * ncols \<and> flow__receiver_node (route nrows ncols dx st z) ! j = j}.
            drainage_area (route nrows ncols dx st z) ! j) = real (nrows * ncols) * (dx * dx)"
    by (rule route_area_total)
next
  fix out
  assume o: "out < nrows * ncols"
    and single: "flow__receiver_node (route nrows ncols dx st z) ! out = out \<and>
            (\<forall>j < nrows * ncols. flow__receiver_node (route nrows ncols dx st z) ! j = j \<longrightarrow> j = out)"
  let ?recv = "flow__receiver_node (route nrows ncols dx st z)"
  let ?area = "drainage_area (route nrows ncols dx st z)"
  have eq: "{j. j < nrows * ncols \<and> ?recv ! j = j} = {out}"
  proof (rule set_eqI)
    fix j
    show "j \<in> {j. j < nrows * ncols \<and> ?recv ! j = j} \<longleftrightarrow> j \<in> {out}"
      using o single by blast
  qed
  have "(\<Sum>j \<in> {out}. ?area ! j) = real (nrows * ncols) * (dx * dx)"
    using route_area_total[of nrows ncols dx st z] unfolding eq .
  then show "?area ! out = real (nrows * ncols) * (dx * dx)"
    by (simp only: sum.insert finite.emptyI empty_iff sum.empty add_0_right not_False_eq_True)
qed

lemma receivers_block4_0:
  "receiver_of 2 2 [FIXED_VALUE, CORE, CORE, CORE] [1, 2, 3, 4] 0 = 0"
  by code_simp

lemma receivers_block4_1:
  "receiver_of 2 2 [FIXED_VALUE, CORE, CORE, CORE] [1, 2, 3, 4] (Suc 0) = 0"
  by code_simp

lemma receivers_block4_2:
  "receiver_of 2 2 [FIXED_VALUE, CORE, CORE, CORE] [1, 2, 3, 4] 2 = 0"
  by code_simp

lemma receivers_block4_3:
  "receiver_of 2 2 [FIXED_VALUE, CORE, CORE, CORE] [1, 2, 3, 4] 3 = 0"
  by code_simp

lemmas receivers_block4 =
  receivers_block4_0 receivers_block4_1 receivers_block4_2 receivers_block4_3

theorem outlet_area_is_domain_area_witness:
  "drainage_area (route 2 2 3 [FIXED_VALUE, CORE, CORE, CORE] [1, 2, 3, 4]) ! 0 = real (2 * 2) * (3 * 3)"
proof -
  let ?recv = "flow__receiver_node (route 2 2 3 [FIXED_VALUE, CORE, CORE, CORE] [1, 2, 3, 4])"
  have l1: "length [FIXED_VALUE, CORE, CORE, CORE] = 2 * 2" by simp
  have l2: "length [1, 2, 3, 4 :: real] = 2 * 2" by simp
  have r0: "?recv ! 0 = 0" by (simp add: route_receiver receivers_block4)
  have r1: "?recv ! 1 = 0" by (simp add: route_receiver receivers_block4)
  have r2: "?recv ! 2 = 0" by (simp add: route_receiver receivers_block4)
  have r3: "?recv ! 3 = 0" by (simp add: route_receiver receivers_block4)
  have "\<And>j. j < 2 * 2 \<Longrightarrow> ?recv ! j = j \<Longrightarrow> j = 0"
  proof -
    fix j :: nat assume "j < 2 * 2" and e: "?recv ! j = j"
    then have "j = 0 \<or> j = 1 \<or> j = 2 \<or> j = 3" by auto
    then show "j = 0" using e r1 r2 r3 by auto
  qed
  then have single: "?recv ! 0 = 0 \<and> (\<forall>j < 2 * 2. ?recv ! j = j \<longrightarrow> j = 0)"
    using r0 by blast
  have o: "(0::nat) < 2 * 2" by simp
  have "\<forall>out < 2 * 2. ?recv ! out = out \<and> (\<forall>j < 2 * 2. ?recv ! j = j \<longrightarrow> j = out)
            \<longrightarrow> drainage_area (route 2 2 3 [FIXED_VALUE, CORE, CORE, CORE] [1, 2, 3, 4]) ! out
                = real (2 * 2) * (3 * 3)"
    using outlet_area_is_domain_area[OF l1 l2, of 3] by (rule conjunct2)
  from this[rule_format, OF o single] show ?thesis .
qed

section \<open>Properties of the fluvial solver\<close>

lemma length_erode_node:
  "length (erode_node K_sp m threshold dt ncols dx st f i a) = length a"
  by (simp add: erode_node_def Let_def)

lemma erode_node_other:
  "k \<noteq> i \<Longrightarrow> erode_node K_sp m threshold dt ncols dx st f i a ! k = a ! k"
  by (simp add: erode_node_def Let_def)

lemma fold_length:
  assumes "\<And>i a. length (step i a) = length a"
  shows "length (fold step xs a) = length a"
  using assms by (induction xs arbitrary: a) simp_all

lemma fold_other:
  assumes "\<And>i a. k \<noteq> i \<Longrightarrow> step i a ! k = a ! k" and "k \<notin> set xs"
  shows "fold step xs a ! k = a ! k"
  using assms(2)
proof (induction xs arbitrary: a)
  case Nil
  then show ?case by simp
next
  case (Cons x xs)
  then have "fold step xs (step x a) ! k = step x a ! k" by simp
  also have "\<dots> = a ! k" using Cons.prems assms(1)[of x a] by auto
  finally show ?case by simp
qed

lemma fold_own:
  assumes other: "\<And>i a. k \<noteq> i \<Longrightarrow> step i a ! k = a ! k"
    and "distinct (pre @ k # post)"
  shows "fold step (pre @ k # post) a ! k = step k (fold step pre a) ! k"
proof -
  have "k \<notin> set post" using assms(2) by simp
  then show ?thesis using fold_other[of k step post, OF other] by simp
qed

lemma upstream_order_facts:
  "distinct (flow__upstream_node_order (route nrows ncols dx st zr))"
  "set (flow__upstream_node_order (route nrows ncols dx st zr)) = {..< nrows * ncols}"
  "sorted_wrt (\<lambda>i j. zr ! i \<le> zr ! j) (flow__upstream_node_order (route nrows ncols dx st zr))"
proof -
  show "distinct (flow__upstream_node_order (route nrows ncols dx st zr))"
    by (simp add: route_def Let_def distinct_decreasing_order)
  show "set (flow__upstream_node_order (route nrows ncols dx st zr)) = {..< nrows * ncols}"
    by (simp add: route_def Let_def set_decreasing_order)
  have "sorted_wrt (\<lambda>i j. zr ! j \<le> zr ! i) (decreasing_elevation_order zr (nrows * ncols))"
    by (rule sorted_decreasing_order)
  then show "sorted_wrt (\<lambda>i j. zr ! i \<le> zr ! j) (flow__upstream_node_order (route nrows ncols dx st zr))"
    by (simp add: route_def Let_def sorted_wrt_rev)
qed

lemma receiver_before:
  assumes i: "i < nrows * ncols"
    and split: "flow__upstream_node_order (route nrows ncols dx st zr) = pre @ i # post"
    and ne: "flow__receiver_node (route nrows ncols dx st zr) ! i \<noteq> i"
  shows "flow__receiver_node (route nrows ncols dx st zr) ! i \<in> set pre"
proof -
  let ?r = "flow__receiver_node (route nrows ncols dx st zr) ! i"
  have r: "?r = receiver_of nrows ncols st zr i" using i by (simp add: route_receiver)
  have low: "zr ! ?r < zr ! i" using ne r receiver_of_lower[of nrows ncols st zr i] by simp
  have rn: "?r < nrows * ncols" using r i by (simp add: receiver_of_in_range)
  have "?r \<in> set (pre @ i # post)"
    using rn upstream_order_facts(2)[of nrows ncols dx st zr] split by simp
  moreover have "?r \<notin> set post"
  proof
    assume "?r \<in> set post"
    moreover have "\<forall>j \<in> set post. zr ! i \<le> zr ! j"
      using upstream_order_facts(3)[of zr nrows ncols dx st] split
      by (simp add: sorted_wrt_append)
    ultimately have "zr ! i \<le> zr ! ?r" by blast
    then show False using low by simp
  qed
  ultimately show ?thesis using ne by auto
qed

lemma fluvial_fold_at:
  assumes i: "i < nrows * ncols"
  shows "\<exists>a. fold (erode_node K_sp m threshold dt ncols dx st (route nrows ncols dx st zr))
               (flow__upstream_node_order (route nrows ncols dx st zr)) z ! i =
             erode_node K_sp m threshold dt ncols dx st (route nrows ncols dx st zr) i a ! i \<and>
             a ! i = z ! i \<and> length a = length z \<and>
             (flow__receiver_node (route nrows ncols dx st zr) ! i \<noteq> i \<longrightarrow>
                a ! (flow__receiver_node (route nrows ncols dx st zr) ! i) =
                fold (erode_node K_sp m threshold dt ncols dx st (route nrows ncols dx st zr))
                  (flow__upstream_node_order (route nrows ncols dx st zr)) z !
                  (flow__receiver_node (route nrows ncols dx st zr) ! i))"
proof -
  let ?f = "route nrows ncols dx st zr"
  let ?step = "erode_node K_sp m threshold dt ncols dx st ?f"
  let ?ord = "flow__upstream_node_order ?f"
  let ?r = "flow__receiver_node ?f ! i"
  have "i \<in> set ?ord" using i upstream_order_facts(2)[of nrows ncols dx st zr] by simp
  then obtain pre post where split: "?ord = pre @ i # post" by (meson split_list)
  have dist: "distinct (pre @ i # post)"
    using upstream_order_facts(1)[of nrows ncols dx st zr] split by simp
  let ?a = "fold ?step pre z"
  have other: "\<And>k j a. k \<noteq> j \<Longrightarrow> ?step j a ! k = a ! k" by (rule erode_node_other)
  have own: "fold ?step ?ord z ! i = ?step i ?a ! i"
    unfolding split using fold_own[of i ?step pre post z, OF other dist] .
  have ipre: "i \<notin> set pre" using dist by simp
  have ai: "?a ! i = z ! i" using fold_other[of i ?step pre z, OF other ipre] .
  have la: "length ?a = length z" by (rule fold_length) (rule length_erode_node)
  have rec: "?r \<noteq> i \<longrightarrow> ?a ! ?r = fold ?step ?ord z ! ?r"
  proof
    assume ne: "?r \<noteq> i"
    have rpre: "?r \<in> set pre" using receiver_before[OF i split ne] .
    have rnot: "?r \<notin> set (i # post)" using dist rpre by auto
    have "fold ?step ?ord z ! ?r = fold ?step (i # post) ?a ! ?r"
      unfolding split by simp
    also have "\<dots> = ?a ! ?r" using fold_other[of ?r ?step "i # post" ?a, OF other rnot] .
    finally show "?a ! ?r = fold ?step ?ord z ! ?r" by simp
  qed
  show ?thesis using own ai la rec by blast
qed

lemma length_fluvial_sweep:
  "length (fluvial_sweep K_sp m threshold dt ncols dx st f z) = length z"
  unfolding fluvial_sweep_def by (rule fold_length) (rule length_erode_node)

lemma fluvial_sweep_not_core:
  assumes "st ! i \<noteq> CORE"
  shows "fluvial_sweep K_sp m threshold dt ncols dx st f z ! i = z ! i"
proof -
  have "\<And>xs a. fold (erode_node K_sp m threshold dt ncols dx st f) xs a ! i = a ! i"
  proof -
    fix xs a
    show "fold (erode_node K_sp m threshold dt ncols dx st f) xs a ! i = a ! i"
    proof (induction xs arbitrary: a)
      case Nil
      then show ?case by simp
    next
      case (Cons x xs)
      have "erode_node K_sp m threshold dt ncols dx st f x a ! i = a ! i"
      proof (cases "x = i")
        case True
        then show ?thesis using assms by (simp add: erode_node_def Let_def)
      next
        case False
        then show ?thesis by (simp add: erode_node_other)
      qed
      then show ?case using Cons.IH by simp
    qed
  qed
  then show ?thesis by (simp add: fluvial_sweep_def)
qed

text \<open>
  Claim C6. With a legal configuration the fluvial step returns a field, and for every
  node: if the stream power the solver computes at the node (from the node's drainage
  area, its elevation, and the new elevation of its receiver) does not exceed the
  threshold, the node's elevation is unchanged, its delta exactly zero. The flow field may
  have been routed on any elevation field, as in the loop, where it is routed before the
  eroder runs.
\<close>

theorem below_threshold_no_erosion:
  assumes cfg: "0 \<le> K_sp" "0 < m" "0 \<le> threshold" "0 < dt" "0 < dx"
    and len: "length st = nrows * ncols" "length zr = nrows * ncols" "length z = nrows * ncols"
    and i: "i < nrows * ncols"
  shows "fluvial_step K_sp m threshold dt ncols dx st (route nrows ncols dx st zr) z =
           Inr (fluvial_sweep K_sp m threshold dt ncols dx st (route nrows ncols dx st zr) z) \<and>
         (stream_power K_sp m (drainage_area (route nrows ncols dx st zr) ! i)
              (slope (z ! i)
                 (fluvial_sweep K_sp m threshold dt ncols dx st (route nrows ncols dx st zr) z !
                    (flow__receiver_node (route nrows ncols dx st zr) ! i))
                 (flow_path_length ncols dx i (flow__receiver_node (route nrows ncols dx st zr) ! i)))
              \<le> threshold
          \<longrightarrow> fluvial_sweep K_sp m threshold dt ncols dx st (route nrows ncols dx st zr) z ! i = z ! i)"
proof -
  let ?f = "route nrows ncols dx st zr"
  let ?step = "erode_node K_sp m threshold dt ncols dx st ?f"
  let ?z' = "fluvial_sweep K_sp m threshold dt ncols dx st ?f z"
  let ?r = "flow__receiver_node ?f ! i"
  have res: "fluvial_step K_sp m threshold dt ncols dx st ?f z = Inr ?z'"
    using cfg by (simp add: fluvial_step_def)
  obtain a where own: "?z' ! i = ?step i a ! i" and ai: "a ! i = z ! i"
    and la: "length a = length z" and rec: "?r \<noteq> i \<longrightarrow> a ! ?r = ?z' ! ?r"
    using fluvial_fold_at[OF i, of K_sp m threshold dt dx st zr z]
    unfolding fluvial_sweep_def by blast
  have "stream_power K_sp m (drainage_area ?f ! i)
              (slope (z ! i) (?z' ! ?r) (flow_path_length ncols dx i ?r)) \<le> threshold
        \<longrightarrow> ?z' ! i = z ! i"
  proof
    assume below: "stream_power K_sp m (drainage_area ?f ! i)
              (slope (z ! i) (?z' ! ?r) (flow_path_length ncols dx i ?r)) \<le> threshold"
    show "?z' ! i = z ! i"
    proof (cases "st ! i \<noteq> CORE \<or> ?r = i")
      case True
      then have "?step i a = a" by (auto simp: erode_node_def Let_def)
      then show ?thesis using own ai by simp
    next
      case False
      then have "a ! ?r = ?z' ! ?r" using rec by simp
      then have "stream_power K_sp m (drainage_area ?f ! i)
              (slope (a ! i) (a ! ?r) (flow_path_length ncols dx i ?r)) \<le> threshold"
        using below ai by simp
      then have "?step i a = a" using False by (simp add: erode_node_def Let_def)
      then show ?thesis using own ai by simp
    qed
  qed
  then show ?thesis using res by blast
qed

lemma area_block4:
  "drainage_area (route 2 2 3 [FIXED_VALUE, CORE, CORE, CORE] [1, 2, 3, 4]) = [36, 9, 9, 9]"
  by code_simp

theorem below_threshold_no_erosion_witness:
  "fluvial_sweep 0.001 1 0.01 10 2 3 [FIXED_VALUE, CORE, CORE, CORE]
     (route 2 2 3 [FIXED_VALUE, CORE, CORE, CORE] [1, 2, 3, 4]) [1, 2, 3, 4] ! Suc 0 = 2"
proof -
  let ?st = "[FIXED_VALUE, CORE, CORE, CORE]"
  let ?z = "[1, 2, 3, 4] :: real list"
  let ?f = "route 2 2 3 ?st ?z"
  let ?z' = "fluvial_sweep 0.001 1 0.01 10 2 3 ?st ?f ?z"
  have r1: "flow__receiver_node ?f ! Suc 0 = 0"
    by (simp add: route_receiver receivers_block4_1)
  have z0: "?z' ! 0 = 1"
    using fluvial_sweep_not_core[of ?st 0 "0.001" 1 "0.01" 10 2 3 ?f ?z] by simp
  have A: "drainage_area ?f ! Suc 0 = 9" by (simp add: area_block4)
  have L: "flow_path_length 2 3 (Suc 0) 0 = 3" by (simp add: flow_path_length_def)
  have below: "stream_power 0.001 1 (drainage_area ?f ! Suc 0)
      (slope (?z ! Suc 0) (?z' ! (flow__receiver_node ?f ! Suc 0))
         (flow_path_length 2 3 (Suc 0) (flow__receiver_node ?f ! Suc 0))) \<le> 0.01"
    unfolding r1 z0 A L by (simp add: stream_power_def slope_def)
  have "?z' ! Suc 0 = ?z ! Suc 0"
    using below_threshold_no_erosion[of "0.001" 1 "0.01" 10 3 ?st 2 2 ?z ?z "Suc 0"] below
    by simp
  then show ?thesis by simp
qed

section \<open>Properties of the diffusion solver\<close>

lemma forward_sweep_length: "length (forward_sweep rows cp dp) = length rows"
  by (induction rows cp dp rule: forward_sweep.induct) (simp_all add: Let_def)

lemma forward_step_flat:
  fixes a b c q cp dp :: real
  assumes row: "a \<le> 0" "c \<le> 0" "b = 1 - a - c"
    and cp: "- 1 < cp" "cp \<le> 0"
    and start: "a = 0 \<or> dp = q * (1 + cp)"
  shows "- 1 < c / (b - a * cp) \<and> c / (b - a * cp) \<le> 0 \<and>
         (q - a * dp) / (b - a * cp) = q * (1 + c / (b - a * cp))"
proof -
  let ?den = "b - a * cp"
  have "0 \<le> (- a) * (1 + cp)" using row(1) cp(1) by (intro mult_nonneg_nonneg) simp_all
  then have den: "1 - c \<le> ?den" using row(3) by (simp add: algebra_simps)
  then have pos: "0 < ?den" using row(2) by linarith
  have c1: "c / ?den \<le> 0" using row(2) pos by (simp add: divide_nonpos_pos)
  have "- ?den < c" using den row(2) by linarith
  then have c2: "- 1 < c / ?den" using pos by (simp add: pos_less_divide_eq)
  have num: "q - a * dp = q * (?den + c)"
  proof (cases "a = 0")
    case True
    then show ?thesis using row(3) by simp
  next
    case False
    then have dp: "dp = q * (1 + cp)" using start by simp
    have "q - a * (q * (1 + cp)) = q * ((1 - a - c) - a * cp + c)"
      by (simp add: algebra_simps)
    then show ?thesis unfolding dp row(3) .
  qed
  have "(q - a * dp) / ?den = q * ((?den + c) / ?den)" using num by simp
  also have "(?den + c) / ?den = 1 + c / ?den" using pos by (simp add: add_divide_distrib)
  finally show ?thesis using c1 c2 by simp
qed

lemma forward_sweep_flat:
  assumes "\<forall>row \<in> set rows. flat_row q row"
    and "- 1 < cp" "cp \<le> 0"
    and "rows \<noteq> [] \<longrightarrow> fst (hd rows) = 0 \<or> dp = q * (1 + cp)"
  shows "\<forall>p \<in> set (forward_sweep rows cp dp). snd p = q * (1 + fst p)"
  using assms
proof (induction rows cp dp rule: forward_sweep.induct)
  case (1 cp dp)
  then show ?case by simp
next
  case (2 a b c d rows cp dp)
  have row: "a \<le> 0" "c \<le> 0" "b = 1 - a - c" "d = q"
    using "2.prems"(1) by (simp_all add: flat_row_def)
  have start: "a = 0 \<or> dp = q * (1 + cp)" using "2.prems"(4) by simp
  have st: "- 1 < c / (b - a * cp) \<and> c / (b - a * cp) \<le> 0 \<and>
         (q - a * dp) / (b - a * cp) = q * (1 + c / (b - a * cp))"
    using forward_step_flat[OF row(1,2,3) "2.prems"(2,3) start] .
  have rest: "\<forall>p \<in> set (forward_sweep rows (c / (b - a * cp)) ((d - a * dp) / (b - a * cp))).
      snd p = q * (1 + fst p)"
  proof (rule "2.IH"[OF refl refl refl])
    show "\<forall>row \<in> set rows. flat_row q row" using "2.prems"(1) by simp
    show "- 1 < c / (b - a * cp)" using st by simp
    show "c / (b - a * cp) \<le> 0" using st by simp
    show "rows \<noteq> [] \<longrightarrow> fst (hd rows) = 0 \<or>
        (d - a * dp) / (b - a * cp) = q * (1 + c / (b - a * cp))"
      using st row(4) by simp
  qed
  show ?case using st rest row(4) by (simp add: Let_def)
qed

lemma forward_sweep_last:
  assumes "rows \<noteq> []" and "fst (snd (snd (last rows))) = 0"
  shows "fst (last (forward_sweep rows cp dp)) = 0"
  using assms
proof (induction rows cp dp rule: forward_sweep.induct)
  case (1 cp dp)
  then show ?case by simp
next
  case (2 a b c d rows cp dp)
  show ?case
  proof (cases "rows = []")
    case True
    then show ?thesis using "2.prems" by (simp add: Let_def)
  next
    case False
    then have ne: "forward_sweep rows (c / (b - a * cp)) ((d - a * dp) / (b - a * cp)) \<noteq> []"
      using forward_sweep_length[of rows] by (metis length_0_conv)
    have "fst (last (forward_sweep rows (c / (b - a * cp)) ((d - a * dp) / (b - a * cp)))) = 0"
      using "2.IH"[OF refl refl refl False] "2.prems"(2) False by simp
    then show ?thesis using ne by (simp add: Let_def)
  qed
qed

lemma back_substitute_length: "length (back_substitute ps) = length ps"
  by (induction ps rule: back_substitute.induct) (simp_all add: Let_def)

lemma back_substitute_flat:
  assumes "\<forall>p \<in> set ps. snd p = q * (1 + fst p)" and "ps \<noteq> [] \<longrightarrow> fst (last ps) = 0"
  shows "back_substitute ps = replicate (length ps) q"
  using assms
proof (induction ps rule: back_substitute.induct)
  case 1
  then show ?case by simp
next
  case (2 c' d')
  then show ?case by simp
next
  case (3 c' d' p ps)
  have ih: "back_substitute (p # ps) = replicate (length (p # ps)) q"
    using "3.IH" "3.prems" by simp
  then have hd: "hd (back_substitute (p # ps)) = q" by simp
  have "d' = q * (1 + c')" using "3.prems"(1) by simp
  then have "d' - c' * q = q" by (simp add: algebra_simps)
  then show ?case using ih hd by (simp add: Let_def)
qed

lemma line_rows_flat:
  assumes "0 \<le> r"
  shows "\<forall>row \<in> set (line_rows r ss (replicate n q)). flat_row q row"
  using assms by (auto simp: line_rows_def flat_row_def Let_def)

lemma length_line_rows: "length (line_rows r ss zs) = length zs"
  by (simp add: line_rows_def)

lemma line_rows_first:
  assumes "0 < length zs"
  shows "fst (hd (line_rows r ss zs)) = 0"
proof -
  have ne: "line_rows r ss zs \<noteq> []" using assms length_line_rows[of r ss zs] by auto
  have "hd (line_rows r ss zs) = line_rows r ss zs ! 0"
    by (rule hd_conv_nth[OF ne])
  also have "fst \<dots> = 0" using assms by (simp add: line_rows_def Let_def)
  finally show ?thesis .
qed

lemma line_rows_last:
  assumes "0 < length zs"
  shows "fst (snd (snd (last (line_rows r ss zs)))) = 0"
proof -
  have ne: "line_rows r ss zs \<noteq> []" using assms length_line_rows[of r ss zs] by auto
  have "last (line_rows r ss zs) = line_rows r ss zs ! (length zs - 1)"
    using ne by (simp add: last_conv_nth length_line_rows)
  also have "fst (snd (snd \<dots>)) = 0" using assms by (simp add: line_rows_def Let_def)
  finally show ?thesis .
qed

lemma solve_line_flat:
  assumes "0 \<le> r"
  shows "solve_line r ss (replicate n q) = replicate n q"
proof (cases "n = 0")
  case True
  then show ?thesis by (simp add: solve_line_def tridiagonal_solve_def line_rows_def)
next
  case False
  let ?rows = "line_rows r ss (replicate n q)"
  let ?ps = "forward_sweep ?rows 0 0"
  have ne: "?rows \<noteq> []" using False length_line_rows[of r ss "replicate n q"] by auto
  have first: "fst (hd ?rows) = 0" using False by (simp add: line_rows_first)
  have lastc: "fst (snd (snd (last ?rows))) = 0" using False by (simp add: line_rows_last)
  have inv: "\<forall>p \<in> set ?ps. snd p = q * (1 + fst p)"
    by (rule forward_sweep_flat[OF line_rows_flat[OF assms]]) (simp_all add: first)
  have lastp: "?ps \<noteq> [] \<longrightarrow> fst (last ?ps) = 0"
    using forward_sweep_last[OF ne lastc] by simp
  have "back_substitute ?ps = replicate (length ?ps) q"
    by (rule back_substitute_flat[OF inv lastp])
  then show ?thesis
    by (simp add: solve_line_def tridiagonal_solve_def forward_sweep_length length_line_rows)
qed

lemma row_of_replicate:
  assumes "k < nrows"
  shows "row_of ncols (replicate (nrows * ncols) q) k = replicate ncols q"
proof -
  have "Suc k * ncols \<le> nrows * ncols" using assms by (simp only: mult_le_mono1 Suc_leI)
  then have "ncols \<le> nrows * ncols - k * ncols" by simp
  then show ?thesis by (simp add: row_of_def min_def)
qed

lemma column_of_replicate:
  assumes "c < ncols"
  shows "column_of nrows ncols (replicate (nrows * ncols) q) c = replicate nrows q"
proof -
  have "\<And>k. k < nrows \<Longrightarrow> k * ncols + c < nrows * ncols"
  proof -
    fix k assume "k < nrows"
    have "k * ncols + c < Suc k * ncols" using assms by simp
    also have "\<dots> \<le> nrows * ncols" using \<open>k < nrows\<close> by (simp only: mult_le_mono1 Suc_leI)
    finally show "k * ncols + c < nrows * ncols" .
  qed
  then have eq: "map (\<lambda>k. replicate (nrows * ncols) q ! (k * ncols + c)) [0 ..< nrows] =
             map (\<lambda>k. q) [0 ..< nrows]"
    by (intro map_cong) simp_all
  show ?thesis unfolding column_of_def eq by (simp add: map_replicate_const)
qed

lemma concat_replicate_rows:
  "concat (map (\<lambda>k. replicate ncols q) [0 ..< nrows]) = replicate (nrows * ncols) (q::real)"
proof (induction nrows)
  case 0
  then show ?case by simp
next
  case (Suc nrows)
  then show ?case by (simp add: replicate_add[symmetric] add.commute)
qed

lemma diffuse_rows_flat:
  assumes "0 \<le> r"
  shows "diffuse_rows r nrows ncols st (replicate (nrows * ncols) q) = replicate (nrows * ncols) q"
proof -
  have eq: "map (\<lambda>k. solve_line r (row_of ncols st k) (row_of ncols (replicate (nrows * ncols) q) k))
          [0 ..< nrows] = map (\<lambda>k. replicate ncols q) [0 ..< nrows]"
    by (intro map_cong) (simp_all add: row_of_replicate solve_line_flat[OF assms])
  show ?thesis unfolding diffuse_rows_def eq by (rule concat_replicate_rows)
qed

lemma diffuse_columns_flat:
  assumes "0 \<le> r"
  shows "diffuse_columns r nrows ncols st (replicate (nrows * ncols) q) = replicate (nrows * ncols) q"
proof -
  let ?cols = "map (\<lambda>c. solve_line r (column_of nrows ncols st c)
                     (column_of nrows ncols (replicate (nrows * ncols) q) c)) [0 ..< ncols]"
  have cols: "?cols = map (\<lambda>c. replicate nrows q) [0 ..< ncols]"
    by (intro map_cong) (simp_all add: column_of_replicate solve_line_flat[OF assms])
  have "\<And>i. i < nrows * ncols \<Longrightarrow> ?cols ! (i mod ncols) ! (i div ncols) = q"
  proof -
    fix i assume i: "i < nrows * ncols"
    then have pos: "0 < ncols" by (cases ncols) auto
    have m: "i mod ncols < ncols" using pos by simp
    have d: "i div ncols < nrows" using i pos by (simp add: less_mult_imp_div_less)
    show "?cols ! (i mod ncols) ! (i div ncols) = q" unfolding cols using m d by simp
  qed
  then have eq: "map (\<lambda>i. ?cols ! (i mod ncols) ! (i div ncols)) [0 ..< nrows * ncols] =
             map (\<lambda>i. q) [0 ..< nrows * ncols]"
    by (intro map_cong) simp_all
  show ?thesis unfolding diffuse_columns_def Let_def eq by (simp add: map_replicate_const)
qed

lemma diffusion_step_flat:
  assumes "0 < dt" "0 < dx"
  shows "diffusion_step D dt dx nrows ncols st (replicate (nrows * ncols) q) =
           (if D < 0 then Inl ConfigurationError else Inr (replicate (nrows * ncols) q))"
proof (cases "D < 0")
  case True
  then show ?thesis by (simp add: diffusion_step_def)
next
  case False
  then have "0 \<le> D * dt / (dx * dx)" using assms by simp
  then show ?thesis using False assms
    by (simp add: diffusion_step_def Let_def diffuse_rows_flat diffuse_columns_flat)
qed

text \<open>
  Claim C5. On a flat elevation field, any number of diffusion steps with any timestep
  \<open>dt > 0\<close> returns the field exactly as it was, for every diffusivity the solver accepts
  (\<open>D \<ge> 0\<close>). A negative \<open>D\<close> is rejected as a ConfigurationError before anything is
  computed, so no other field is ever produced. Uplift and fluvial erosion take no part in
  the diffusion step.
\<close>

theorem flat_field_is_fixed_point:
  assumes "0 < dt" and "0 < dx"
  shows "diffusion_steps k D dt dx nrows ncols st (replicate (nrows * ncols) q) =
           (if D < 0 \<and> 0 < k then Inl ConfigurationError else Inr (replicate (nrows * ncols) q))"
proof (induction k)
  case 0
  then show ?case by simp
next
  case (Suc k)
  then show ?case by (simp add: diffusion_step_flat[OF assms])
qed

theorem flat_field_is_fixed_point_witness:
  "diffusion_steps 3 1 10 3 3 3
     [CLOSED, FIXED_VALUE, CLOSED, CLOSED, CORE, CLOSED, CLOSED, FIXED_VALUE, CLOSED]
     (replicate (3 * 3) 5) = Inr (replicate (3 * 3) 5)"
  using flat_field_is_fixed_point[of 10 3 3 1 3 3
      "[CLOSED, FIXED_VALUE, CLOSED, CLOSED, CORE, CLOSED, CLOSED, FIXED_VALUE, CLOSED]" 5]
  by simp


section \<open>The loop with the solvers of the specification\<close>

subsection \<open>Routing and diffusion\<close>

lemma pit_status: "set_boundaries 3 3 (initial_status 3 3) =
   [CLOSED, FIXED_VALUE, CLOSED, CLOSED, CORE, CLOSED, CLOSED, FIXED_VALUE, CLOSED]"
  by code_simp

lemma pit_diffused:
  "diffusion_step 1 10 3 3 3
     [CLOSED, FIXED_VALUE, CLOSED, CLOSED, CORE, CLOSED, CLOSED, FIXED_VALUE, CLOSED]
     [5, 5, 5, 5, 4, 5, 5, 9, 5] = Inr [5, 5, 5, 5, 176 / 29, 5, 5, 9, 5]"
  by code_simp

lemma pit_receiver_before:
  "receiver_of 3 3 [CLOSED, FIXED_VALUE, CLOSED, CLOSED, CORE, CLOSED, CLOSED, FIXED_VALUE, CLOSED]
     [5, 5, 5, 5, 4, 5, 5, 9, 5] 4 = 4"
  by code_simp

lemma pit_receiver_after:
  "receiver_of 3 3 [CLOSED, FIXED_VALUE, CLOSED, CLOSED, CORE, CLOSED, CLOSED, FIXED_VALUE, CLOSED]
     [5, 5, 5, 5, 176 / 29, 5, 5, 9, 5] 4 = 1"
  by code_simp

text \<open>
  Claim C1 as stated fails. On a 3 by 3 raster whose only core node is a pit below its
  two open neighbours, diffusion lifts the pit above the lower neighbour. The loop body
  routes after the diffuser has run and finds that neighbour as the receiver; the sequence
  of the specification routes first and finds the pit its own receiver.
\<close>

theorem routing_follows_diffusion_counterexample:
  "flow__receiver_node
     (flow (loop_body (build_components 1 0 (1/2) 0 3 3 3) 10 (uplift_per_step_of 0.0012 10) 0
              (make_grid 3 3 [5, 5, 5, 5, 4, 5, 5, 9, 5]))) ! 4 = 1 \<and>
   flow__receiver_node
     (flow (spec_sequence (build_components 1 0 (1/2) 0 3 3 3) 10 (uplift_per_step_of 0.0012 10) 0
              (make_grid 3 3 [5, 5, 5, 5, 4, 5, 5, 9, 5]))) ! 4 = 4"
proof -
  have a: "flow__receiver_node
     (flow (loop_body (build_components 1 0 (1/2) 0 3 3 3) 10 (uplift_per_step_of 0.0012 10) 0
              (make_grid 3 3 [5, 5, 5, 5, 4, 5, 5, 9, 5]))) ! 4 = 1"
    by (simp add: loop_body_flow build_components_def make_grid_def pit_status pit_diffused
        route_receiver pit_receiver_after)
  have b: "flow__receiver_node
     (flow (spec_sequence (build_components 1 0 (1/2) 0 3 3 3) 10 (uplift_per_step_of 0.0012 10) 0
              (make_grid 3 3 [5, 5, 5, 5, 4, 5, 5, 9, 5]))) ! 4 = 4"
    by (simp add: spec_sequence_def Let_def build_components_def make_grid_def pit_status
        route_receiver pit_receiver_before)
  show ?thesis using a b by simp
qed

subsection \<open>The erosion ledger\<close>

lemma erode_node_no_power:
  assumes "0 \<le> threshold"
  shows "erode_node 0 m threshold dt ncols dx st f i a = a"
  using assms by (simp add: erode_node_def stream_power_def Let_def)

lemma fluvial_sweep_no_power:
  assumes "0 \<le> threshold"
  shows "fluvial_sweep 0 m threshold dt ncols dx st f z = z"
proof -
  have "\<And>xs a. fold (erode_node 0 m threshold dt ncols dx st f) xs a = a"
  proof -
    fix xs a
    show "fold (erode_node 0 m threshold dt ncols dx st f) xs a = a"
      by (induction xs arbitrary: a) (simp_all add: erode_node_no_power[OF assms])
  qed
  then show ?thesis by (simp add: fluvial_sweep_def)
qed

lemma erode_build_components_no_power:
  assumes "0 \<le> threshold"
  shows "erode (build_components D 0 m threshold nrows ncols dx) dt st f z = z"
  by (simp add: build_components_def fluvial_step_def fluvial_sweep_no_power[OF assms])


lemma processes_diffusion_only:
  assumes "0 \<le> threshold"
  shows "processes (build_components D 0 m threshold nrows ncols dx) dt st z =
           (case diffusion_step D (real_of_int dt) dx nrows ncols st z of
              Inr z' \<Rightarrow> z' | Inl e \<Rightarrow> z)"
  unfolding processes_def Let_def
  by (simp add: erode_build_components_no_power[OF assms]) (simp add: build_components_def)

lemma length_diffuse_columns: "length (diffuse_columns r nrows ncols st z) = nrows * ncols"
  by (simp add: diffuse_columns_def Let_def)

lemma keeps_size_build_components:
  "keeps_size (build_components D K_sp m threshold nrows ncols dx) (nrows * ncols)"
  by (simp add: keeps_size_def build_components_def diffusion_step_def fluvial_step_def
      length_diffuse_columns length_fluvial_sweep Let_def)

text \<open>
  A raster at rest under diffusion and uplift: once the one CORE node of the 3 by 3
  raster stands so high above the fixed edges that one diffusion step lowers it by the
  uplift of one step, every pass starts from the same elevation and records the same loss.
\<close>

lemma elevation_at_steady:
  assumes "uplift st (processes c dt st z) u = z"
  shows "elevation_at c dt u st z i = z"
  unfolding elevation_at_def using assms by (induction i) simp_all

lemma recorded_steady:
  assumes "uplift st (processes c dt st z) u = z"
  shows "recorded c dt u st z i k = z ! k - processes c dt st z ! k"
  by (simp add: recorded_def elevation_at_steady[OF assms])

lemma steady_diffused_5:
  "diffusion_step 1 5 3 3 3
     [CLOSED, FIXED_VALUE, CLOSED, CLOSED, CORE, CLOSED, CLOSED, FIXED_VALUE, CLOSED]
     [0, 0, 0, 0, 19 / 1000, 0, 0, 0, 0] = Inr [0, 0, 0, 0, 9 / 1000, 0, 0, 0, 0]"
  by code_simp

lemma steady_diffused_10:
  "diffusion_step 1 10 3 3 3
     [CLOSED, FIXED_VALUE, CLOSED, CLOSED, CORE, CLOSED, CLOSED, FIXED_VALUE, CLOSED]
     [0, 0, 0, 0, 29 / 1000, 0, 0, 0, 0] = Inr [0, 0, 0, 0, 9 / 1000, 0, 0, 0, 0]"
  by code_simp

lemma steady_uplift_5:
  "uplift [CLOSED, FIXED_VALUE, CLOSED, CLOSED, CORE, CLOSED, CLOSED, FIXED_VALUE, CLOSED]
     [0, 0, 0, 0, 9 / 1000, 0, 0, 0, 0] (1 / 100) = [0, 0, 0, 0, 19 / 1000, 0, 0, 0, 0]"
  by code_simp

lemma steady_uplift_10:
  "uplift [CLOSED, FIXED_VALUE, CLOSED, CLOSED, CORE, CLOSED, CLOSED, FIXED_VALUE, CLOSED]
     [0, 0, 0, 0, 9 / 1000, 0, 0, 0, 0] (1 / 50) = [0, 0, 0, 0, 29 / 1000, 0, 0, 0, 0]"
  by code_simp

text \<open>
  With the script's \<open>nt = 1000\<close> and \<open>dt = 10\<close> and an uplift of \<open>0.002\<close> per year, the
  raster at rest loses \<open>0.02\<close> in each of the \<open>100\<close> window passes, and the reported rate
  is the uplift rate, \<open>0.002\<close> per year.
\<close>

theorem fixed_window_rate_witness:
  "t_erode_dep (simulate (build_components 1 0 (1/2) 0 3 3 3) 10 (uplift_per_step_of 0.002 10) 1000
                  (make_grid 3 3 [0, 0, 0, 0, 29 / 1000, 0, 0, 0, 0])) ! 4 = 0.002 \<and>
   card {901 ..< nat (1000 + 1)} = 100 \<and>
   1 / (real (nat (1000 - 900)) * real_of_int 10) = (0.001 :: real)"
proof -
  let ?c = "build_components 1 0 (1/2) 0 3 3 3"
  let ?z = "[0, 0, 0, 0, 29 / 1000, 0, 0, 0, 0] :: real list"
  let ?mg = "make_grid 3 3 ?z"
  let ?u = "uplift_per_step_of 0.002 10"
  have l: "length (topographic__elevation ?mg) = 3 * 3" by (simp add: make_grid_def)
  have ks: "keeps_size ?c (length (topographic__elevation ?mg))"
    unfolding l by (rule keeps_size_build_components)
  have s: "same_size ?mg" by (rule same_size_make_grid) simp
  have k: "4 < length (topographic__elevation ?mg)" by (simp add: make_grid_def)
  have p: "processes ?c 10 (status_at_node ?mg) (topographic__elevation ?mg) =
             [0, 0, 0, 0, 9 / 1000, 0, 0, 0, 0]"
    by (simp add: processes_diffusion_only make_grid_def pit_status steady_diffused_10)
  have u: "?u = 1 / 50" by (simp add: uplift_per_step_of_def)
  have st: "uplift (status_at_node ?mg) (processes ?c 10 (status_at_node ?mg) (topographic__elevation ?mg)) ?u
              = topographic__elevation ?mg"
    unfolding p u by (simp add: make_grid_def pit_status steady_uplift_10)
  have r: "recorded ?c 10 ?u (status_at_node ?mg) (topographic__elevation ?mg) i 4 = 1 / 50" for i
    unfolding recorded_steady[OF st] p by (simp add: make_grid_def)
  show ?thesis
    using fixed_window_rate[OF ks s k, of 10 ?u 1000] unfolding r by simp
qed

text \<open>
  Claim C3 as stated fails. With \<open>total_t = 5000\<close> and \<open>dt = 5\<close> the run also has
  \<open>nt = 1000\<close> and a window of \<open>100\<close> passes, now \<open>500\<close> years long. On the raster at rest
  under an uplift of \<open>0.002\<close> per year every window pass loses \<open>0.01\<close>; the script
  reports the sum times \<^verbatim>\<open>0.001\<close>, which is \<open>0.001\<close>, where the sum times the reciprocal of
  the window's duration is \<open>0.002\<close>.
\<close>

theorem fixed_window_counterexample:
  "nt_of 5000 5 = Inr 1000 \<and>
   t_erode_dep (simulate (build_components 1 0 (1/2) 0 3 3 3) 5 (uplift_per_step_of 0.002 5) 1000
                  (make_grid 3 3 [0, 0, 0, 0, 19 / 1000, 0, 0, 0, 0])) ! 4 = 1 / 1000 \<and>
   (\<Sum>i \<in> {901 ..< nat (1000 + 1)}.
      recorded (build_components 1 0 (1/2) 0 3 3 3) 5 (uplift_per_step_of 0.002 5)
        (status_at_node (make_grid 3 3 [0, 0, 0, 0, 19 / 1000, 0, 0, 0, 0]))
        (topographic__elevation (make_grid 3 3 [0, 0, 0, 0, 19 / 1000, 0, 0, 0, 0])) i 4)
     * (1 / (real (card {901 ..< nat (1000 + 1)}) * real_of_int 5)) = 2 / 1000"
proof -
  let ?c = "build_components 1 0 (1/2) 0 3 3 3"
  let ?z = "[0, 0, 0, 0, 19 / 1000, 0, 0, 0, 0] :: real list"
  let ?mg = "make_grid 3 3 ?z"
  let ?u = "uplift_per_step_of 0.002 5"
  have l: "length (topographic__elevation ?mg) = 3 * 3" by (simp add: make_grid_def)
  have ks: "keeps_size ?c (length (topographic__elevation ?mg))"
    unfolding l by (rule keeps_size_build_components)
  have s: "same_size ?mg" by (rule same_size_make_grid) simp
  have k: "4 < length (topographic__elevation ?mg)" by (simp add: make_grid_def)
  have p: "processes ?c 5 (status_at_node ?mg) (topographic__elevation ?mg) =
             [0, 0, 0, 0, 9 / 1000, 0, 0, 0, 0]"
    by (simp add: processes_diffusion_only make_grid_def pit_status steady_diffused_5)
  have u: "?u = 1 / 100" by (simp add: uplift_per_step_of_def)
  have st: "uplift (status_at_node ?mg) (processes ?c 5 (status_at_node ?mg) (topographic__elevation ?mg)) ?u
              = topographic__elevation ?mg"
    unfolding p u by (simp add: make_grid_def pit_status steady_uplift_5)
  have r: "recorded ?c 5 ?u (status_at_node ?mg) (topographic__elevation ?mg) i 4 = 1 / 100" for i
    unfolding recorded_steady[OF st] p by (simp add: make_grid_def)
  have n: "nt_of 5000 5 = Inr 1000" by (simp add: nt_of_def)
  show ?thesis
    using simulate_t_nth[OF ks s k, of 5 ?u 1000] n unfolding r by simp
qed

lemma peak_diffused:
  "diffusion_step 1 10 3 3 3
     [CLOSED, FIXED_VALUE, CLOSED, CLOSED, CORE, CLOSED, CLOSED, FIXED_VALUE, CLOSED]
     [5, 5, 5, 5, 9, 5, 5, 5, 5] = Inr [5, 5, 5, 5, 181 / 29, 5, 5, 5, 5]"
  by code_simp

theorem window_pass_records_loss_witness:
  "erode_dep (loop_body (build_components 1 0 (1/2) 0 3 3 3) 10 (uplift_per_step_of 0.0012 10) 901
                (make_grid 3 3 [5, 5, 5, 5, 9, 5, 5, 5, 5])) ! 4 = 80 / 29 \<and>
   t_erode_dep (loop_body (build_components 1 0 (1/2) 0 3 3 3) 10 (uplift_per_step_of 0.0012 10) 901
                (make_grid 3 3 [5, 5, 5, 5, 9, 5, 5, 5, 5])) ! 4 = 80 / 29"
proof -
  let ?c = "build_components 1 0 (1/2) 0 3 3 3"
  let ?mg = "make_grid 3 3 [5, 5, 5, 5, 9, 5, 5, 5, 5]"
  have l: "length (topographic__elevation ?mg) = 3 * 3" by (simp add: make_grid_def)
  have ks: "keeps_size ?c (length (topographic__elevation ?mg))"
    unfolding l by (rule keeps_size_build_components)
  have s: "same_size ?mg" by (rule same_size_make_grid) simp
  have k: "4 < length (topographic__elevation ?mg)" by (simp add: make_grid_def)
  have i: "(900::nat) < 901" by simp
  have p: "processes ?c 10 (status_at_node ?mg) (topographic__elevation ?mg) =
             [5, 5, 5, 5, 181 / 29, 5, 5, 5, 5]"
    by (simp add: processes_diffusion_only make_grid_def pit_status peak_diffused)
  show ?thesis
    using window_pass_records_loss[OF ks s k i, of 10 "uplift_per_step_of 0.0012 10"]
    unfolding p by (simp add: make_grid_def)
qed

subsection \<open>The end-to-end scenario\<close>

lemma simulate_elevation:
  "topographic__elevation (simulate c dt u nt mg) =
     elevation_at c dt u (status_at_node mg) (topographic__elevation mg) (nat (nt + 1))"
  by (simp add: simulate_def Let_def run_loop_elevation)

lemma elevation_at_Suc:
  "elevation_at c dt u st z (Suc n) = uplift st (processes c dt st (elevation_at c dt u st z n)) u"
  by (simp add: elevation_at_def)

lemma elevation_at_0: "elevation_at c dt u st z 0 = z"
  by (simp add: elevation_at_def)

text \<open>With \<open>D = 0\<close> the diffusion solver returns every field as it is.\<close>

lemma line_rows_zero:
  "line_rows 0 ss zs = map (\<lambda>j. (0, 1, 0, zs ! j)) [0 ..< length zs]"
  by (simp add: line_rows_def Let_def)

lemma forward_sweep_identity:
  "forward_sweep (map (\<lambda>d. (0, 1, 0, d)) ds) cp dp = map (\<lambda>d. (0, d)) ds"
  by (induction ds arbitrary: cp dp) (simp_all add: Let_def)

lemma back_substitute_identity:
  "back_substitute (map (\<lambda>d. (0, d)) ds) = ds"
proof (induction ds)
  case Nil
  then show ?case by simp
next
  case (Cons d ds)
  then show ?case by (cases ds) (simp_all add: Let_def)
qed

lemma solve_line_zero: "solve_line 0 ss zs = zs"
proof -
  have "line_rows 0 ss zs = map (\<lambda>d. (0, 1, 0, d)) (map (\<lambda>j. zs ! j) [0 ..< length zs])"
    by (simp add: line_rows_zero)
  also have "map (\<lambda>j. zs ! j) [0 ..< length zs] = zs" by (rule map_nth)
  finally show ?thesis
    by (simp add: solve_line_def tridiagonal_solve_def forward_sweep_identity
        back_substitute_identity)
qed

lemma concat_rows:
  "concat (map (\<lambda>k. row_of ncols z k) [0 ..< nrows]) = take (nrows * ncols) z"
proof (induction nrows)
  case 0
  then show ?case by simp
next
  case (Suc nrows)
  have e: "Suc nrows * ncols = nrows * ncols + ncols" by simp
  have t: "take (Suc nrows * ncols) z = take (nrows * ncols) z @ take ncols (drop (nrows * ncols) z)"
    unfolding e by (rule take_add)
  have "concat (map (\<lambda>k. row_of ncols z k) [0 ..< Suc nrows]) =
        concat (map (\<lambda>k. row_of ncols z k) [0 ..< nrows]) @ row_of ncols z nrows"
    by simp
  also have "\<dots> = take (nrows * ncols) z @ take ncols (drop (nrows * ncols) z)"
    unfolding Suc by (simp only: row_of_def)
  finally show ?case unfolding t .
qed

lemma diffuse_rows_zero:
  assumes "length z = nrows * ncols"
  shows "diffuse_rows 0 nrows ncols st z = z"
  using assms by (simp add: diffuse_rows_def solve_line_zero concat_rows)

lemma diffuse_columns_zero:
  assumes "length z = nrows * ncols"
  shows "diffuse_columns 0 nrows ncols st z = z"
proof -
  have "\<And>i. i < nrows * ncols \<Longrightarrow>
     map (\<lambda>c. column_of nrows ncols z c) [0 ..< ncols] ! (i mod ncols) ! (i div ncols) = z ! i"
  proof -
    fix i assume i: "i < nrows * ncols"
    then have pos: "0 < ncols" by (cases ncols) auto
    have m: "i mod ncols < ncols" using pos by simp
    have d: "i div ncols < nrows" using i pos by (simp add: less_mult_imp_div_less)
    show "map (\<lambda>c. column_of nrows ncols z c) [0 ..< ncols] ! (i mod ncols) ! (i div ncols) = z ! i"
      using m d by (simp add: column_of_def)
  qed
  then have "map (\<lambda>i. map (\<lambda>c. column_of nrows ncols z c) [0 ..< ncols] ! (i mod ncols) ! (i div ncols))
               [0 ..< nrows * ncols] = map (\<lambda>i. z ! i) [0 ..< nrows * ncols]"
    by (intro map_cong) simp_all
  also have "\<dots> = z" using assms map_nth[of z] by simp
  finally show ?thesis by (simp add: diffuse_columns_def Let_def solve_line_zero)
qed

lemma diffusion_step_zero:
  assumes "0 < dt" "0 < dx" "length z = nrows * ncols"
  shows "diffusion_step 0 dt dx nrows ncols st z = Inr z"
  using assms by (simp add: diffusion_step_def diffuse_rows_zero diffuse_columns_zero)

lemma processes_at_rest:
  assumes "0 < dt" "0 < dx" "0 \<le> threshold" "length z = nrows * ncols"
  shows "processes (build_components 0 0 m threshold nrows ncols dx) dt st z = z"
  using assms by (simp add: processes_diffusion_only diffusion_step_zero)

lemma elevation_at_still:
  assumes still: "\<forall>z. length z = length st \<longrightarrow> processes c dt st z = z"
    and len: "length z = length st"
  shows "length (elevation_at c dt u st z n) = length st \<and>
         elevation_at c dt u st z (Suc n) = uplift st (elevation_at c dt u st z n) u"
proof (induction n)
  case 0
  then show ?case using still len by (simp add: elevation_at_0 elevation_at_Suc)
next
  case (Suc n)
  have l: "length (elevation_at c dt u st z (Suc n)) = length st"
    using Suc by (simp add: length_uplift)
  then have "processes c dt st (elevation_at c dt u st z (Suc n)) = elevation_at c dt u st z (Suc n)"
    using still by blast
  then show ?case using l by (simp add: elevation_at_Suc)
qed

lemma run_loop_at_rest:
  assumes still: "\<forall>z. length z = length (status_at_node mg) \<longrightarrow>
                       processes c dt (status_at_node mg) z = z"
    and len: "length (status_at_node mg) = length (topographic__elevation mg)"
    and k: "k < length (topographic__elevation mg)"
  shows "topographic__elevation (run_loop c dt u n mg) ! k =
           (if status_at_node mg ! k = CORE then topographic__elevation mg ! k + real n * u
            else topographic__elevation mg ! k)"
proof -
  let ?st = "status_at_node mg" and ?z = "topographic__elevation mg"
  have "elevation_at c dt u ?st ?z n ! k = (if ?st ! k = CORE then ?z ! k + real n * u else ?z ! k)"
  proof (induction n)
    case 0
    then show ?case by (simp add: elevation_at_0)
  next
    case (Suc n)
    have f: "length (elevation_at c dt u ?st ?z n) = length ?st \<and>
         elevation_at c dt u ?st ?z (Suc n) = uplift ?st (elevation_at c dt u ?st ?z n) u"
      using elevation_at_still[OF still len[symmetric]] .
    have l: "length ?st = length (elevation_at c dt u ?st ?z n)" using f by simp
    have kk: "k < length (elevation_at c dt u ?st ?z n)" using k f len by simp
    show ?case using Suc f uplift_nth[OF l kk, of u] by (simp add: algebra_simps)
  qed
  then show ?thesis by (simp add: run_loop_elevation)
qed

text \<open>
  Claim C2, as amended. With processes that leave the elevation as it is (diffusion not
  acting, as with \<open>D = 0\<close>, and nothing eroded, as with \<open>K_sp = 0\<close>), every pass of the
  loop adds exactly the uplift of one step to every CORE node and changes nothing else, so
  \<open>n\<close> passes add exactly \<open>n\<close> times that: five passes at \<open>0.001\<close> add \<open>0.005\<close>.
\<close>

theorem uplift_only_passes:
  assumes still: "\<forall>z. length z = length (status_at_node mg) \<longrightarrow>
                       processes c dt (status_at_node mg) z = z"
    and len: "length (status_at_node mg) = length (topographic__elevation mg)"
    and k: "k < length (topographic__elevation mg)"
  shows "topographic__elevation (run_loop c dt u n mg) ! k =
           (if status_at_node mg ! k = CORE then topographic__elevation mg ! k + real n * u
            else topographic__elevation mg ! k)"
  using still len k by (rule run_loop_at_rest)

theorem uplift_only_passes_witness:
  "topographic__elevation
     (run_loop (build_components 0 0 (1/2) 0 5 5 1) 1 (uplift_per_step_of 0.001 1) 5
        (make_grid 5 5 (replicate 25 0))) ! 12
   = 0.005"
proof -
  let ?mg = "make_grid 5 5 (replicate 25 0)"
  let ?c = "build_components 0 0 (1/2) 0 5 5 1"
  have ls: "length (status_at_node ?mg) = 5 * 5"
    using same_size_make_grid[of "replicate 25 0" 5 5] by (simp add: same_size_def make_grid_def)
  have still: "\<forall>z. length z = length (status_at_node ?mg) \<longrightarrow>
                  processes ?c 1 (status_at_node ?mg) z = z"
    unfolding ls by (simp add: processes_at_rest)
  have len: "length (status_at_node ?mg) = length (topographic__elevation ?mg)"
    using same_size_make_grid[of "replicate 25 0" 5 5] by (simp add: same_size_def)
  have k: "12 < length (topographic__elevation ?mg)" by (simp add: make_grid_def)
  have core: "status_at_node ?mg ! 12 = CORE" by code_simp
  have z: "topographic__elevation ?mg ! 12 = 0" by (simp add: make_grid_def)
  show ?thesis
    using uplift_only_passes[OF still len k, of "uplift_per_step_of 0.001 1" 5] core z
    by (simp add: uplift_per_step_of_def)
qed

text \<open>
  The scenario of C2 with the diffusion solver at \<open>D = 1\<close>, pass by pass: the sweep along
  the rows, the sweep along the columns, the uplift. After the first pass the core stands
  above the fixed edges and diffusion lowers it again in every later pass.
\<close>

lemma status5:
  "set_boundaries 5 5 (initial_status 5 5) =
     [CLOSED, FIXED_VALUE, FIXED_VALUE, FIXED_VALUE, CLOSED,
      CLOSED, CORE, CORE, CORE, CLOSED,
      CLOSED, CORE, CORE, CORE, CLOSED,
      CLOSED, CORE, CORE, CORE, CLOSED,
      CLOSED, FIXED_VALUE, FIXED_VALUE, FIXED_VALUE, CLOSED]"
  by code_simp

lemma first_pass_rows:
  "diffuse_rows 1 5 5
     [CLOSED, FIXED_VALUE, FIXED_VALUE, FIXED_VALUE, CLOSED,
      CLOSED, CORE, CORE, CORE, CLOSED,
      CLOSED, CORE, CORE, CORE, CLOSED,
      CLOSED, CORE, CORE, CORE, CLOSED,
      CLOSED, FIXED_VALUE, FIXED_VALUE, FIXED_VALUE, CLOSED]
     [0, 0, 0, 0, 0,
      0, 0, 0, 0, 0,
      0, 0, 0, 0, 0,
      0, 0, 0, 0, 0,
      0, 0, 0, 0, 0] =
     [0, 0, 0, 0, 0,
      0, 0, 0, 0, 0,
      0, 0, 0, 0, 0,
      0, 0, 0, 0, 0,
      0, 0, 0, 0, 0]"
  by code_simp

lemma first_pass_columns:
  "diffuse_columns 1 5 5
     [CLOSED, FIXED_VALUE, FIXED_VALUE, FIXED_VALUE, CLOSED,
      CLOSED, CORE, CORE, CORE, CLOSED,
      CLOSED, CORE, CORE, CORE, CLOSED,
      CLOSED, CORE, CORE, CORE, CLOSED,
      CLOSED, FIXED_VALUE, FIXED_VALUE, FIXED_VALUE, CLOSED]
     [0, 0, 0, 0, 0,
      0, 0, 0, 0, 0,
      0, 0, 0, 0, 0,
      0, 0, 0, 0, 0,
      0, 0, 0, 0, 0] =
     [0, 0, 0, 0, 0,
      0, 0, 0, 0, 0,
      0, 0, 0, 0, 0,
      0, 0, 0, 0, 0,
      0, 0, 0, 0, 0]"
  by code_simp

lemma first_pass_uplift:
  "uplift
     [CLOSED, FIXED_VALUE, FIXED_VALUE, FIXED_VALUE, CLOSED,
      CLOSED, CORE, CORE, CORE, CLOSED,
      CLOSED, CORE, CORE, CORE, CLOSED,
      CLOSED, CORE, CORE, CORE, CLOSED,
      CLOSED, FIXED_VALUE, FIXED_VALUE, FIXED_VALUE, CLOSED]
     [0, 0, 0, 0, 0,
      0, 0, 0, 0, 0,
      0, 0, 0, 0, 0,
      0, 0, 0, 0, 0,
      0, 0, 0, 0, 0] (1 / 1000) =
     [0, 0, 0, 0, 0,
      0, 1 / 1000, 1 / 1000, 1 / 1000, 0,
      0, 1 / 1000, 1 / 1000, 1 / 1000, 0,
      0, 1 / 1000, 1 / 1000, 1 / 1000, 0,
      0, 0, 0, 0, 0]"
  by code_simp

lemma first_pass:
  "uplift (set_boundaries 5 5 (initial_status 5 5))
     (case diffusion_step 1 1 1 5 5 (set_boundaries 5 5 (initial_status 5 5))
        [0, 0, 0, 0, 0,
         0, 0, 0, 0, 0,
         0, 0, 0, 0, 0,
         0, 0, 0, 0, 0,
         0, 0, 0, 0, 0] of
        Inr z' \<Rightarrow> z'
      | Inl e \<Rightarrow> [0, 0, 0, 0, 0,
                0, 0, 0, 0, 0,
                0, 0, 0, 0, 0,
                0, 0, 0, 0, 0,
                0, 0, 0, 0, 0])
     (1 / 1000) =
     [0, 0, 0, 0, 0,
      0, 1 / 1000, 1 / 1000, 1 / 1000, 0,
      0, 1 / 1000, 1 / 1000, 1 / 1000, 0,
      0, 1 / 1000, 1 / 1000, 1 / 1000, 0,
      0, 0, 0, 0, 0]"
  unfolding status5
  by (simp add: diffusion_step_def first_pass_rows first_pass_columns first_pass_uplift)

lemma second_pass_rows:
  "diffuse_rows 1 5 5
     [CLOSED, FIXED_VALUE, FIXED_VALUE, FIXED_VALUE, CLOSED,
      CLOSED, CORE, CORE, CORE, CLOSED,
      CLOSED, CORE, CORE, CORE, CLOSED,
      CLOSED, CORE, CORE, CORE, CLOSED,
      CLOSED, FIXED_VALUE, FIXED_VALUE, FIXED_VALUE, CLOSED]
     [0, 0, 0, 0, 0,
      0, 1 / 1000, 1 / 1000, 1 / 1000, 0,
      0, 1 / 1000, 1 / 1000, 1 / 1000, 0,
      0, 1 / 1000, 1 / 1000, 1 / 1000, 0,
      0, 0, 0, 0, 0] =
     [0, 0, 0, 0, 0,
      0, 1 / 1000, 1 / 1000, 1 / 1000, 0,
      0, 1 / 1000, 1 / 1000, 1 / 1000, 0,
      0, 1 / 1000, 1 / 1000, 1 / 1000, 0,
      0, 0, 0, 0, 0]"
  by code_simp

lemma second_pass_columns:
  "diffuse_columns 1 5 5
     [CLOSED, FIXED_VALUE, FIXED_VALUE, FIXED_VALUE, CLOSED,
      CLOSED, CORE, CORE, CORE, CLOSED,
      CLOSED, CORE, CORE, CORE, CLOSED,
      CLOSED, CORE, CORE, CORE, CLOSED,
      CLOSED, FIXED_VALUE, FIXED_VALUE, FIXED_VALUE, CLOSED]
     [0, 0, 0, 0, 0,
      0, 1 / 1000, 1 / 1000, 1 / 1000, 0,
      0, 1 / 1000, 1 / 1000, 1 / 1000, 0,
      0, 1 / 1000, 1 / 1000, 1 / 1000, 0,
      0, 0, 0, 0, 0] =
     [0, 0, 0, 0, 0,
      0, 1 / 1750, 1 / 1750, 1 / 1750, 0,
      0, 1 / 1400, 1 / 1400, 1 / 1400, 0,
      0, 1 / 1750, 1 / 1750, 1 / 1750, 0,
      0, 0, 0, 0, 0]"
  by code_simp

lemma second_pass_uplift:
  "uplift
     [CLOSED, FIXED_VALUE, FIXED_VALUE, FIXED_VALUE, CLOSED,
      CLOSED, CORE, CORE, CORE, CLOSED,
      CLOSED, CORE, CORE, CORE, CLOSED,
      CLOSED, CORE, CORE, CORE, CLOSED,
      CLOSED, FIXED_VALUE, FIXED_VALUE, FIXED_VALUE, CLOSED]
     [0, 0, 0, 0, 0,
      0, 1 / 1750, 1 / 1750, 1 / 1750, 0,
      0, 1 / 1400, 1 / 1400, 1 / 1400, 0,
      0, 1 / 1750, 1 / 1750, 1 / 1750, 0,
      0, 0, 0, 0, 0] (1 / 1000) =
     [0, 0, 0, 0, 0,
      0, 11 / 7000, 11 / 7000, 11 / 7000, 0,
      0, 3 / 1750, 3 / 1750, 3 / 1750, 0,
      0, 11 / 7000, 11 / 7000, 11 / 7000, 0,
      0, 0, 0, 0, 0]"
  by code_simp

lemma second_pass:
  "uplift (set_boundaries 5 5 (initial_status 5 5))
     (case diffusion_step 1 1 1 5 5 (set_boundaries 5 5 (initial_status 5 5))
        [0, 0, 0, 0, 0,
         0, 1 / 1000, 1 / 1000, 1 / 1000, 0,
         0, 1 / 1000, 1 / 1000, 1 / 1000, 0,
         0, 1 / 1000, 1 / 1000, 1 / 1000, 0,
         0, 0, 0, 0, 0] of
        Inr z' \<Rightarrow> z'
      | Inl e \<Rightarrow> [0, 0, 0, 0, 0,
                0, 1 / 1000, 1 / 1000, 1 / 1000, 0,
                0, 1 / 1000, 1 / 1000, 1 / 1000, 0,
                0, 1 / 1000, 1 / 1000, 1 / 1000, 0,
                0, 0, 0, 0, 0])
     (1 / 1000) =
     [0, 0, 0, 0, 0,
      0, 11 / 7000, 11 / 7000, 11 / 7000, 0,
      0, 3 / 1750, 3 / 1750, 3 / 1750, 0,
      0, 11 / 7000, 11 / 7000, 11 / 7000, 0,
      0, 0, 0, 0, 0]"
  unfolding status5
  by (simp add: diffusion_step_def second_pass_rows second_pass_columns second_pass_uplift)

lemma third_pass_rows:
  "diffuse_rows 1 5 5
     [CLOSED, FIXED_VALUE, FIXED_VALUE, FIXED_VALUE, CLOSED,
      CLOSED, CORE, CORE, CORE, CLOSED,
      CLOSED, CORE, CORE, CORE, CLOSED,
      CLOSED, CORE, CORE, CORE, CLOSED,
      CLOSED, FIXED_VALUE, FIXED_VALUE, FIXED_VALUE, CLOSED]
     [0, 0, 0, 0, 0,
      0, 11 / 7000, 11 / 7000, 11 / 7000, 0,
      0, 3 / 1750, 3 / 1750, 3 / 1750, 0,
      0, 11 / 7000, 11 / 7000, 11 / 7000, 0,
      0, 0, 0, 0, 0] =
     [0, 0, 0, 0, 0,
      0, 11 / 7000, 11 / 7000, 11 / 7000, 0,
      0, 3 / 1750, 3 / 1750, 3 / 1750, 0,
      0, 11 / 7000, 11 / 7000, 11 / 7000, 0,
      0, 0, 0, 0, 0]"
  by code_simp

lemma third_pass_columns:
  "diffuse_columns 1 5 5
     [CLOSED, FIXED_VALUE, FIXED_VALUE, FIXED_VALUE, CLOSED,
      CLOSED, CORE, CORE, CORE, CLOSED,
      CLOSED, CORE, CORE, CORE, CLOSED,
      CLOSED, CORE, CORE, CORE, CLOSED,
      CLOSED, FIXED_VALUE, FIXED_VALUE, FIXED_VALUE, CLOSED]
     [0, 0, 0, 0, 0,
      0, 11 / 7000, 11 / 7000, 11 / 7000, 0,
      0, 3 / 1750, 3 / 1750, 3 / 1750, 0,
      0, 11 / 7000, 11 / 7000, 11 / 7000, 0,
      0, 0, 0, 0, 0] =
     [0, 0, 0, 0, 0,
      0, 9 / 9800, 9 / 9800, 9 / 9800, 0,
      0, 29 / 24500, 29 / 24500, 29 / 24500, 0,
      0, 9 / 9800, 9 / 9800, 9 / 9800, 0,
      0, 0, 0, 0, 0]"
  by code_simp

lemma third_pass_uplift:
  "uplift
     [CLOSED, FIXED_VALUE, FIXED_VALUE, FIXED_VALUE, CLOSED,
      CLOSED, CORE, CORE, CORE, CLOSED,
      CLOSED, CORE, CORE, CORE, CLOSED,
      CLOSED, CORE, CORE, CORE, CLOSED,
      CLOSED, FIXED_VALUE, FIXED_VALUE, FIXED_VALUE, CLOSED]
     [0, 0, 0, 0, 0,
      0, 9 / 9800, 9 / 9800, 9 / 9800, 0,
      0, 29 / 24500, 29 / 24500, 29 / 24500, 0,
      0, 9 / 9800, 9 / 9800, 9 / 9800, 0,
      0, 0, 0, 0, 0] (1 / 1000) =
     [0, 0, 0, 0, 0,
      0, 47 / 24500, 47 / 24500, 47 / 24500, 0,
      0, 107 / 49000, 107 / 49000, 107 / 49000, 0,
      0, 47 / 24500, 47 / 24500, 47 / 24500, 0,
      0, 0, 0, 0, 0]"
  by code_simp

lemma third_pass:
  "uplift (set_boundaries 5 5 (initial_status 5 5))
     (case diffusion_step 1 1 1 5 5 (set_boundaries 5 5 (initial_status 5 5))
        [0, 0, 0, 0, 0,
         0, 11 / 7000, 11 / 7000, 11 / 7000, 0,
         0, 3 / 1750, 3 / 1750, 3 / 1750, 0,
         0, 11 / 7000, 11 / 7000, 11 / 7000, 0,
         0, 0, 0, 0, 0] of
        Inr z' \<Rightarrow> z'
      | Inl e \<Rightarrow> [0, 0, 0, 0, 0,
                0, 11 / 7000, 11 / 7000, 11 / 7000, 0,
                0, 3 / 1750, 3 / 1750, 3 / 1750, 0,
                0, 11 / 7000, 11 / 7000, 11 / 7000, 0,
                0, 0, 0, 0, 0])
     (1 / 1000) =
     [0, 0, 0, 0, 0,
      0, 47 / 24500, 47 / 24500, 47 / 24500, 0,
      0, 107 / 49000, 107 / 49000, 107 / 49000, 0,
      0, 47 / 24500, 47 / 24500, 47 / 24500, 0,
      0, 0, 0, 0, 0]"
  unfolding status5
  by (simp add: diffusion_step_def third_pass_rows third_pass_columns third_pass_uplift)

lemma fourth_pass_rows:
  "diffuse_rows 1 5 5
     [CLOSED, FIXED_VALUE, FIXED_VALUE, FIXED_VALUE, CLOSED,
      CLOSED, CORE, CORE, CORE, CLOSED,
      CLOSED, CORE, CORE, CORE, CLOSED,
      CLOSED, CORE, CORE, CORE, CLOSED,
      CLOSED, FIXED_VALUE, FIXED_VALUE, FIXED_VALUE, CLOSED]
     [0, 0, 0, 0, 0,
      0, 47 / 24500, 47 / 24500, 47 / 24500, 0,
      0, 107 / 49000, 107 / 49000, 107 / 49000, 0,
      0, 47 / 24500, 47 / 24500, 47 / 24500, 0,
      0, 0, 0, 0, 0] =
     [0, 0, 0, 0, 0,
      0, 47 / 24500, 47 / 24500, 47 / 24500, 0,
      0, 107 / 49000, 107 / 49000, 107 / 49000, 0,
      0, 47 / 24500, 47 / 24500, 47 / 24500, 0,
      0, 0, 0, 0, 0]"
  by code_simp

lemma fourth_pass_columns:
  "diffuse_columns 1 5 5
     [CLOSED, FIXED_VALUE, FIXED_VALUE, FIXED_VALUE, CLOSED,
      CLOSED, CORE, CORE, CORE, CLOSED,
      CLOSED, CORE, CORE, CORE, CLOSED,
      CLOSED, CORE, CORE, CORE, CLOSED,
      CLOSED, FIXED_VALUE, FIXED_VALUE, FIXED_VALUE, CLOSED]
     [0, 0, 0, 0, 0,
      0, 47 / 24500, 47 / 24500, 47 / 24500, 0,
      0, 107 / 49000, 107 / 49000, 107 / 49000, 0,
      0, 47 / 24500, 47 / 24500, 47 / 24500, 0,
      0, 0, 0, 0, 0] =
     [0, 0, 0, 0, 0,
      0, 389 / 343000, 389 / 343000, 389 / 343000, 0,
      0, 509 / 343000, 509 / 343000, 509 / 343000, 0,
      0, 389 / 343000, 389 / 343000, 389 / 343000, 0,
      0, 0, 0, 0, 0]"
  by code_simp

lemma fourth_pass_uplift:
  "uplift
     [CLOSED, FIXED_VALUE, FIXED_VALUE, FIXED_VALUE, CLOSED,
      CLOSED, CORE, CORE, CORE, CLOSED,
      CLOSED, CORE, CORE, CORE, CLOSED,
      CLOSED, CORE, CORE, CORE, CLOSED,
      CLOSED, FIXED_VALUE, FIXED_VALUE, FIXED_VALUE, CLOSED]
     [0, 0, 0, 0, 0,
      0, 389 / 343000, 389 / 343000, 389 / 343000, 0,
      0, 509 / 343000, 509 / 343000, 509 / 343000, 0,
      0, 389 / 343000, 389 / 343000, 389 / 343000, 0,
      0, 0, 0, 0, 0] (1 / 1000) =
     [0, 0, 0, 0, 0,
      0, 183 / 85750, 183 / 85750, 183 / 85750, 0,
      0, 213 / 85750, 213 / 85750, 213 / 85750, 0,
      0, 183 / 85750, 183 / 85750, 183 / 85750, 0,
      0, 0, 0, 0, 0]"
  by code_simp

lemma fourth_pass:
  "uplift (set_boundaries 5 5 (initial_status 5 5))
     (case diffusion_step 1 1 1 5 5 (set_boundaries 5 5 (initial_status 5 5))
        [0, 0, 0, 0, 0,
         0, 47 / 24500, 47 / 24500, 47 / 24500, 0,
         0, 107 / 49000, 107 / 49000, 107 / 49000, 0,
         0, 47 / 24500, 47 / 24500, 47 / 24500, 0,
         0, 0, 0, 0, 0] of
        Inr z' \<Rightarrow> z'
      | Inl e \<Rightarrow> [0, 0, 0, 0, 0,
                0, 47 / 24500, 47 / 24500, 47 / 24500, 0,
                0, 107 / 49000, 107 / 49000, 107 / 49000, 0,
                0, 47 / 24500, 47 / 24500, 47 / 24500, 0,
                0, 0, 0, 0, 0])
     (1 / 1000) =
     [0, 0, 0, 0, 0,
      0, 183 / 85750, 183 / 85750, 183 / 85750, 0,
      0, 213 / 85750, 213 / 85750, 213 / 85750, 0,
      0, 183 / 85750, 183 / 85750, 183 / 85750, 0,
      0, 0, 0, 0, 0]"
  unfolding status5
  by (simp add: diffusion_step_def fourth_pass_rows fourth_pass_columns fourth_pass_uplift)

lemma fifth_pass_rows:
  "diffuse_rows 1 5 5
     [CLOSED, FIXED_VALUE, FIXED_VALUE, FIXED_VALUE, CLOSED,
      CLOSED, CORE, CORE, CORE, CLOSED,
      CLOSED, CORE, CORE, CORE, CLOSED,
      CLOSED, CORE, CORE, CORE, CLOSED,
      CLOSED, FIXED_VALUE, FIXED_VALUE, FIXED_VALUE, CLOSED]
     [0, 0, 0, 0, 0,
      0, 183 / 85750, 183 / 85750, 183 / 85750, 0,
      0, 213 / 85750, 213 / 85750, 213 / 85750, 0,
      0, 183 / 85750, 183 / 85750, 183 / 85750, 0,
      0, 0, 0, 0, 0] =
     [0, 0, 0, 0, 0,
      0, 183 / 85750, 183 / 85750, 183 / 85750, 0,
      0, 213 / 85750, 213 / 85750, 213 / 85750, 0,
      0, 183 / 85750, 183 / 85750, 183 / 85750, 0,
      0, 0, 0, 0, 0]"
  by code_simp

lemma fifth_pass_columns:
  "diffuse_columns 1 5 5
     [CLOSED, FIXED_VALUE, FIXED_VALUE, FIXED_VALUE, CLOSED,
      CLOSED, CORE, CORE, CORE, CLOSED,
      CLOSED, CORE, CORE, CORE, CLOSED,
      CLOSED, CORE, CORE, CORE, CLOSED,
      CLOSED, FIXED_VALUE, FIXED_VALUE, FIXED_VALUE, CLOSED]
     [0, 0, 0, 0, 0,
      0, 183 / 85750, 183 / 85750, 183 / 85750, 0,
      0, 213 / 85750, 213 / 85750, 213 / 85750, 0,
      0, 183 / 85750, 183 / 85750, 183 / 85750, 0,
      0, 0, 0, 0, 0] =
     [0, 0, 0, 0, 0,
      0, 381 / 300125, 381 / 300125, 381 / 300125, 0,
      0, 201 / 120050, 201 / 120050, 201 / 120050, 0,
      0, 381 / 300125, 381 / 300125, 381 / 300125, 0,
      0, 0, 0, 0, 0]"
  by code_simp

lemma fifth_pass_uplift:
  "uplift
     [CLOSED, FIXED_VALUE, FIXED_VALUE, FIXED_VALUE, CLOSED,
      CLOSED, CORE, CORE, CORE, CLOSED,
      CLOSED, CORE, CORE, CORE, CLOSED,
      CLOSED, CORE, CORE, CORE, CLOSED,
      CLOSED, FIXED_VALUE, FIXED_VALUE, FIXED_VALUE, CLOSED]
     [0, 0, 0, 0, 0,
      0, 381 / 300125, 381 / 300125, 381 / 300125, 0,
      0, 201 / 120050, 201 / 120050, 201 / 120050, 0,
      0, 381 / 300125, 381 / 300125, 381 / 300125, 0,
      0, 0, 0, 0, 0] (1 / 1000) =
     [0, 0, 0, 0, 0,
      0, 5449 / 2401000, 5449 / 2401000, 5449 / 2401000, 0,
      0, 6421 / 2401000, 6421 / 2401000, 6421 / 2401000, 0,
      0, 5449 / 2401000, 5449 / 2401000, 5449 / 2401000, 0,
      0, 0, 0, 0, 0]"
  by code_simp

lemma fifth_pass:
  "uplift (set_boundaries 5 5 (initial_status 5 5))
     (case diffusion_step 1 1 1 5 5 (set_boundaries 5 5 (initial_status 5 5))
        [0, 0, 0, 0, 0,
         0, 183 / 85750, 183 / 85750, 183 / 85750, 0,
         0, 213 / 85750, 213 / 85750, 213 / 85750, 0,
         0, 183 / 85750, 183 / 85750, 183 / 85750, 0,
         0, 0, 0, 0, 0] of
        Inr z' \<Rightarrow> z'
      | Inl e \<Rightarrow> [0, 0, 0, 0, 0,
                0, 183 / 85750, 183 / 85750, 183 / 85750, 0,
                0, 213 / 85750, 213 / 85750, 213 / 85750, 0,
                0, 183 / 85750, 183 / 85750, 183 / 85750, 0,
                0, 0, 0, 0, 0])
     (1 / 1000) =
     [0, 0, 0, 0, 0,
      0, 5449 / 2401000, 5449 / 2401000, 5449 / 2401000, 0,
      0, 6421 / 2401000, 6421 / 2401000, 6421 / 2401000, 0,
      0, 5449 / 2401000, 5449 / 2401000, 5449 / 2401000, 0,
      0, 0, 0, 0, 0]"
  unfolding status5
  by (simp add: diffusion_step_def fifth_pass_rows fifth_pass_columns fifth_pass_uplift)

lemma sixth_pass_rows:
  "diffuse_rows 1 5 5
     [CLOSED, FIXED_VALUE, FIXED_VALUE, FIXED_VALUE, CLOSED,
      CLOSED, CORE, CORE, CORE, CLOSED,
      CLOSED, CORE, CORE, CORE, CLOSED,
      CLOSED, CORE, CORE, CORE, CLOSED,
      CLOSED, FIXED_VALUE, FIXED_VALUE, FIXED_VALUE, CLOSED]
     [0, 0, 0, 0, 0,
      0, 5449 / 2401000, 5449 / 2401000, 5449 / 2401000, 0,
      0, 6421 / 2401000, 6421 / 2401000, 6421 / 2401000, 0,
      0, 5449 / 2401000, 5449 / 2401000, 5449 / 2401000, 0,
      0, 0, 0, 0, 0] =
     [0, 0, 0, 0, 0,
      0, 5449 / 2401000, 5449 / 2401000, 5449 / 2401000, 0,
      0, 6421 / 2401000, 6421 / 2401000, 6421 / 2401000, 0,
      0, 5449 / 2401000, 5449 / 2401000, 5449 / 2401000, 0,
      0, 0, 0, 0, 0]"
  by code_simp

lemma sixth_pass_columns:
  "diffuse_columns 1 5 5
     [CLOSED, FIXED_VALUE, FIXED_VALUE, FIXED_VALUE, CLOSED,
      CLOSED, CORE, CORE, CORE, CLOSED,
      CLOSED, CORE, CORE, CORE, CLOSED,
      CLOSED, CORE, CORE, CORE, CLOSED,
      CLOSED, FIXED_VALUE, FIXED_VALUE, FIXED_VALUE, CLOSED]
     [0, 0, 0, 0, 0,
      0, 5449 / 2401000, 5449 / 2401000, 5449 / 2401000, 0,
      0, 6421 / 2401000, 6421 / 2401000, 6421 / 2401000, 0,
      0, 5449 / 2401000, 5449 / 2401000, 5449 / 2401000, 0,
      0, 0, 0, 0, 0] =
     [0, 0, 0, 0, 0,
      0, 2846 / 2100875, 2846 / 2100875, 2846 / 2100875, 0,
      0, 30161 / 16807000, 30161 / 16807000, 30161 / 16807000, 0,
      0, 2846 / 2100875, 2846 / 2100875, 2846 / 2100875, 0,
      0, 0, 0, 0, 0]"
  by code_simp

lemma sixth_pass_uplift:
  "uplift
     [CLOSED, FIXED_VALUE, FIXED_VALUE, FIXED_VALUE, CLOSED,
      CLOSED, CORE, CORE, CORE, CLOSED,
      CLOSED, CORE, CORE, CORE, CLOSED,
      CLOSED, CORE, CORE, CORE, CLOSED,
      CLOSED, FIXED_VALUE, FIXED_VALUE, FIXED_VALUE, CLOSED]
     [0, 0, 0, 0, 0,
      0, 2846 / 2100875, 2846 / 2100875, 2846 / 2100875, 0,
      0, 30161 / 16807000, 30161 / 16807000, 30161 / 16807000, 0,
      0, 2846 / 2100875, 2846 / 2100875, 2846 / 2100875, 0,
      0, 0, 0, 0, 0] (1 / 1000) =
     [0, 0, 0, 0, 0,
      0, 1583 / 672280, 1583 / 672280, 1583 / 672280, 0,
      0, 5871 / 2100875, 5871 / 2100875, 5871 / 2100875, 0,
      0, 1583 / 672280, 1583 / 672280, 1583 / 672280, 0,
      0, 0, 0, 0, 0]"
  by code_simp

lemma sixth_pass:
  "uplift (set_boundaries 5 5 (initial_status 5 5))
     (case diffusion_step 1 1 1 5 5 (set_boundaries 5 5 (initial_status 5 5))
        [0, 0, 0, 0, 0,
         0, 5449 / 2401000, 5449 / 2401000, 5449 / 2401000, 0,
         0, 6421 / 2401000, 6421 / 2401000, 6421 / 2401000, 0,
         0, 5449 / 2401000, 5449 / 2401000, 5449 / 2401000, 0,
         0, 0, 0, 0, 0] of
        Inr z' \<Rightarrow> z'
      | Inl e \<Rightarrow> [0, 0, 0, 0, 0,
                0, 5449 / 2401000, 5449 / 2401000, 5449 / 2401000, 0,
                0, 6421 / 2401000, 6421 / 2401000, 6421 / 2401000, 0,
                0, 5449 / 2401000, 5449 / 2401000, 5449 / 2401000, 0,
                0, 0, 0, 0, 0])
     (1 / 1000) =
     [0, 0, 0, 0, 0,
      0, 1583 / 672280, 1583 / 672280, 1583 / 672280, 0,
      0, 5871 / 2100875, 5871 / 2100875, 5871 / 2100875, 0,
      0, 1583 / 672280, 1583 / 672280, 1583 / 672280, 0,
      0, 0, 0, 0, 0]"
  unfolding status5
  by (simp add: diffusion_step_def sixth_pass_rows sixth_pass_columns sixth_pass_uplift)

lemma funpow_six: "(f ^^ 6) x = f (f (f (f (f (f x)))))"
  by (simp add: eval_nat_numeral)

text \<open>
  Claim C2 as stated fails. In its scenario (flat 5 by 5 raster, \<open>D = 1\<close>, \<open>K_sp = 0\<close>,
  uplift \<open>0.001\<close> per step, \<open>nt = 5\<close>) the centre node, a CORE node, does not end
  \<open>0.005\<close> higher: with the diffusion solver of the specification it ends at
  \<open>5871 / 2100875\<close>, because diffusion acts once uplift has raised the core above the
  fixed edges; and with diffusion switched off (\<open>D = 0\<close>) it ends at \<open>0.006\<close>, because
  \<open>nt = 5\<close> and the loop over \<^verbatim>\<open>range(nt+1)\<close> makes six passes.
\<close>

theorem flat_scenario_counterexample:
  "topographic__elevation
     (simulate (build_components 1 0 (1/2) 0 5 5 1) 1 (uplift_per_step_of 0.001 1) 5
        (make_grid 5 5 (replicate 25 0))) ! 12 = 5871 / 2100875 \<and>
   nt_of 5 1 = Inr 5 \<and>
   topographic__elevation
     (simulate (build_components 0 0 (1/2) 0 5 5 1) 1 (uplift_per_step_of 0.001 1) 5
        (make_grid 5 5 (replicate 25 0))) ! 12 = 6 / 1000"
proof -
  let ?c = "build_components 1 0 (1/2) 0 5 5 1"
  let ?st = "set_boundaries 5 5 (initial_status 5 5)"
  let ?step = "\<lambda>z. uplift ?st (case diffusion_step 1 1 1 5 5 ?st z of Inr z' \<Rightarrow> z' | Inl e \<Rightarrow> z) (1 / 1000)"
  have z0: "replicate 25 (0::real) =
     [0, 0, 0, 0, 0,
      0, 0, 0, 0, 0,
      0, 0, 0, 0, 0,
      0, 0, 0, 0, 0,
      0, 0, 0, 0, 0]"
    by code_simp
  have six: "(?step ^^ 6) (replicate 25 0) =
     [0, 0, 0, 0, 0,
      0, 1583 / 672280, 1583 / 672280, 1583 / 672280, 0,
      0, 5871 / 2100875, 5871 / 2100875, 5871 / 2100875, 0,
      0, 1583 / 672280, 1583 / 672280, 1583 / 672280, 0,
      0, 0, 0, 0, 0]"
    unfolding z0 funpow_six
    by (simp only: first_pass second_pass third_pass fourth_pass fifth_pass sixth_pass)
  have "topographic__elevation
     (simulate ?c 1 (uplift_per_step_of 0.001 1) 5 (make_grid 5 5 (replicate 25 0)))
     = (?step ^^ 6) (replicate 25 0)"
    unfolding simulate_elevation elevation_at_def
    by (simp add: make_grid_def processes_diffusion_only uplift_per_step_of_def)
  then have a: "topographic__elevation
     (simulate ?c 1 (uplift_per_step_of 0.001 1) 5 (make_grid 5 5 (replicate 25 0))) ! 12
     = 5871 / 2100875"
    unfolding six by simp
  let ?mg = "make_grid 5 5 (replicate 25 0)"
  have ls: "length (status_at_node ?mg) = 5 * 5"
    using same_size_make_grid[of "replicate 25 0" 5 5] by (simp add: same_size_def make_grid_def)
  have still: "\<forall>z. length z = length (status_at_node ?mg) \<longrightarrow>
                  processes (build_components 0 0 (1/2) 0 5 5 1) 1 (status_at_node ?mg) z = z"
    unfolding ls by (simp add: processes_at_rest)
  have len: "length (status_at_node ?mg) = length (topographic__elevation ?mg)"
    using same_size_make_grid[of "replicate 25 0" 5 5] by (simp add: same_size_def)
  have k: "12 < length (topographic__elevation ?mg)" by (simp add: make_grid_def)
  have core: "status_at_node ?mg ! 12 = CORE" by code_simp
  have z: "topographic__elevation ?mg ! 12 = 0" by (simp add: make_grid_def)
  have "topographic__elevation
     (simulate (build_components 0 0 (1/2) 0 5 5 1) 1 (uplift_per_step_of 0.001 1) 5 ?mg) ! 12
     = topographic__elevation
         (run_loop (build_components 0 0 (1/2) 0 5 5 1) 1 (uplift_per_step_of 0.001 1) 6 ?mg) ! 12"
    by (simp add: simulate_elevation run_loop_elevation)
  also have "\<dots> = 6 / 1000"
    using run_loop_at_rest[OF still len k, of "uplift_per_step_of 0.001 1" 6] core z
    by (simp add: uplift_per_step_of_def)
  finally have b: "topographic__elevation
     (simulate (build_components 0 0 (1/2) 0 5 5 1) 1 (uplift_per_step_of 0.001 1) 5 ?mg) ! 12
     = 6 / 1000" .
  have n: "nt_of 5 1 = Inr 5" by (simp add: nt_of_def)
  show ?thesis using a b n by simp
qed

end
